theory Spec2Isabelle
  imports Complex_Main "HOL-Library.AList"
begin

section \<open>Python values\<close>

text \<open>
  The coordinator of \<^verbatim>\<open>coordinator.py\<close> works on documents decoded from JSON and on
  Home Assistant state attributes. A Python float is either a finite number, one of the
  two infinities or a NaN; a finite float is represented by the rational number it
  denotes (rounding to 53 bits of mantissa is not part of the model). Dictionaries keep
  their insertion order, so they are association lists read with \<open>map_of\<close> and written
  with \<open>AList.update\<close> (an existing key keeps its place, a new key goes last).
  Strings are ASCII text.
\<close>

datatype pyfloat = Finite rat | PosInf | NegInf | NaN

datatype pyval =
    PNone
  | PBool bool
  | PInt int
  | PFloat pyfloat
  | PStr string
  | PList "pyval list"
  | PDict "(string \<times> pyval) list"

type_synonym pydict = "(string \<times> pyval) list"

text \<open>
  The exceptions the code can raise. \<open>NotModelled\<close> marks the one place where the model
  stops: \<^verbatim>\<open>dict(x)\<close> on a string or a list builds a dictionary from a sequence of
  pairs, whose keys need not be strings.
\<close>

datatype error =
    AttributeError
  | TypeError
  | ValueError
  | OverflowError
  | NotModelled
  | UpdateFailed string

subsection \<open>Truth value, \<^verbatim>\<open>str\<close>, \<^verbatim>\<open>int\<close>\<close>

fun truthy :: "pyval \<Rightarrow> bool" where
  "truthy PNone = False"
| "truthy (PBool b) = b"
| "truthy (PInt i) = (i \<noteq> 0)"
| "truthy (PFloat f) = (f \<noteq> Finite 0)"
| "truthy (PStr s) = (s \<noteq> [])"
| "truthy (PList xs) = (xs \<noteq> [])"
| "truthy (PDict d) = (d \<noteq> [])"

definition digit_char :: "nat \<Rightarrow> char" where
  "digit_char n = ''0123456789'' ! n"

fun str_nat :: "nat \<Rightarrow> string" where
  "str_nat n = (if n < 10 then [digit_char n] else str_nat (n div 10) @ [digit_char (n mod 10)])"

declare str_nat.simps [simp del]

definition str_int :: "int \<Rightarrow> string" where
  "str_int i = (if i < 0 then CHR ''-'' # str_nat (nat (- i)) else str_nat (nat i))"

text \<open>
  \<^verbatim>\<open>str(v)\<close>, which is also what an f-string writes for \<^verbatim>\<open>{v}\<close>. The text Python
  writes for a float, a list or a dictionary is not computed here: \<open>repr\<close> stands for it
  and every statement below holds for every \<open>repr\<close>.
\<close>

fun py_str :: "(pyval \<Rightarrow> string) \<Rightarrow> pyval \<Rightarrow> string" where
  "py_str repr PNone = ''None''"
| "py_str repr (PBool b) = (if b then ''True'' else ''False'')"
| "py_str repr (PInt i) = str_int i"
| "py_str repr (PStr s) = s"
| "py_str repr (PFloat f) = repr (PFloat f)"
| "py_str repr (PList xs) = repr (PList xs)"
| "py_str repr (PDict d) = repr (PDict d)"

definition is_space :: "char \<Rightarrow> bool" where
  "is_space c = (let n = (of_char c :: nat) in (9 \<le> n \<and> n \<le> 13) \<or> (28 \<le> n \<and> n \<le> 32))"

definition strip :: "string \<Rightarrow> string" where
  "strip s = rev (dropWhile is_space (rev (dropWhile is_space s)))"

definition is_digit :: "char \<Rightarrow> bool" where
  "is_digit c = (48 \<le> (of_char c :: nat) \<and> (of_char c :: nat) \<le> 57)"

definition digit_val :: "char \<Rightarrow> nat" where
  "digit_val c = of_char c - 48"

text \<open>
  A run of decimal digits in which single underscores may stand between digits, as
  \<^verbatim>\<open>int\<close> and \<^verbatim>\<open>float\<close> accept it. \<open>need\<close> says that a digit has to come next; the
  result is the value and the number of digits read. (The interpreter's limit on the
  length of a decimal integer text, 4300 digits unless configured, is not part of the
  model.)
\<close>

fun digitpart :: "bool \<Rightarrow> nat \<times> nat \<Rightarrow> string \<Rightarrow> (nat \<times> nat) option" where
  "digitpart need acc [] = (if need then None else Some acc)"
| "digitpart need acc (c # cs) =
     (if is_digit c then digitpart False (10 * fst acc + digit_val c, Suc (snd acc)) cs
      else if c = CHR ''_'' \<and> \<not> need then digitpart True acc cs
      else None)"

definition split_sign :: "string \<Rightarrow> bool \<times> string" where
  "split_sign s =
     (case s of
        [] \<Rightarrow> (False, [])
      | c # cs \<Rightarrow> if c = CHR ''-'' then (True, cs) else if c = CHR ''+'' then (False, cs) else (False, s))"

definition int_of_string :: "string \<Rightarrow> int option" where
  "int_of_string s =
     (case split_sign (strip s) of (neg, ds) \<Rightarrow>
        (case digitpart True (0, 0) ds of
           None \<Rightarrow> None
         | Some (n, _) \<Rightarrow> Some (if neg then - int n else int n)))"

definition py_trunc :: "rat \<Rightarrow> int" where
  "py_trunc r = (if 0 \<le> r then \<lfloor>r\<rfloor> else \<lceil>r\<rceil>)"

fun py_int :: "pyval \<Rightarrow> error + int" where
  "py_int (PInt i) = Inr i"
| "py_int (PBool b) = Inr (if b then 1 else 0)"
| "py_int (PFloat (Finite r)) = Inr (py_trunc r)"
| "py_int (PFloat NaN) = Inl ValueError"
| "py_int (PFloat PosInf) = Inl OverflowError"
| "py_int (PFloat NegInf) = Inl OverflowError"
| "py_int (PStr s) = (case int_of_string s of None \<Rightarrow> Inl ValueError | Some i \<Rightarrow> Inr i)"
| "py_int PNone = Inl TypeError"
| "py_int (PList xs) = Inl TypeError"
| "py_int (PDict d) = Inl TypeError"

subsection \<open>Dictionary access\<close>

text \<open>\<^verbatim>\<open>obj.get(k, dflt)\<close>: only a dictionary has the method.\<close>

definition dict_get :: "pyval \<Rightarrow> string \<Rightarrow> pyval \<Rightarrow> error + pyval" where
  "dict_get obj k dflt =
     (case obj of
        PDict d \<Rightarrow> Inr (case map_of d k of None \<Rightarrow> dflt | Some v \<Rightarrow> v)
      | _ \<Rightarrow> Inl AttributeError)"

text \<open>\<^verbatim>\<open>dict(x)\<close>: a shallow copy of a dictionary; a scalar is not iterable.\<close>

definition py_dict :: "pyval \<Rightarrow> error + pydict" where
  "py_dict v =
     (case v of
        PDict d \<Rightarrow> Inr d
      | PStr s \<Rightarrow> Inl NotModelled
      | PList xs \<Rightarrow> Inl NotModelled
      | _ \<Rightarrow> Inl TypeError)"

definition join :: "string \<Rightarrow> string list \<Rightarrow> string" where
  "join sep xs = (case xs of [] \<Rightarrow> [] | y # ys \<Rightarrow> y @ concat (map (\<lambda>z. sep @ z) ys))"

section \<open>Warning key, end time, grace extension\<close>

text \<open>\<^verbatim>\<open>warning.get("properties", {}).get("rawinfo", {})\<close>\<close>

definition rawinfo :: "pyval \<Rightarrow> error + pyval" where
  "rawinfo warning =
     (case dict_get warning ''properties'' (PDict []) of
        Inl e \<Rightarrow> Inl e
      | Inr props \<Rightarrow> dict_get props ''rawinfo'' (PDict []))"

text \<open>The loop of \<^verbatim>\<open>_warning_key\<close> over the identity fields, on a dictionary.\<close>

fun first_identity :: "(pyval \<Rightarrow> string) \<Rightarrow> pydict \<Rightarrow> string list \<Rightarrow> string option" where
  "first_identity repr raw [] = None"
| "first_identity repr raw (k # ks) =
     (let val = (case map_of raw k of None \<Rightarrow> PNone | Some v \<Rightarrow> v)
      in if truthy val then Some (k @ '':'' @ py_str repr val)
         else first_identity repr raw ks)"

definition field_str :: "(pyval \<Rightarrow> string) \<Rightarrow> pydict \<Rightarrow> string \<Rightarrow> string" where
  "field_str repr raw k = py_str repr (case map_of raw k of None \<Rightarrow> PStr [] | Some v \<Rightarrow> v)"

definition warning_key :: "(pyval \<Rightarrow> string) \<Rightarrow> pyval \<Rightarrow> error + string" where
  "warning_key repr warning =
     (case rawinfo warning of
        Inl e \<Rightarrow> Inl e
      | Inr raw \<Rightarrow>
          (case raw of
             PDict d \<Rightarrow>
               (case first_identity repr d [''id'', ''awcode'', ''warnid'', ''wcode''] of
                  Some k \<Rightarrow> Inr k
                | None \<Rightarrow>
                    Inr (join ''|''
                      [field_str repr d ''wtype'', field_str repr d ''wlevel'',
                       field_str repr d ''start'', field_str repr d ''end'']))
           | _ \<Rightarrow> Inl AttributeError))"

text \<open>
  \<^verbatim>\<open>_get_end_ts\<close>: the lookup of the raw-info block stands before the \<^verbatim>\<open>try\<close>; inside
  it only \<^verbatim>\<open>TypeError\<close> and \<^verbatim>\<open>ValueError\<close> are caught.
\<close>

definition get_end_ts :: "pyval \<Rightarrow> error + int" where
  "get_end_ts warning =
     (case rawinfo warning of
        Inl e \<Rightarrow> Inl e
      | Inr raw \<Rightarrow>
          (case dict_get raw ''end'' (PInt 0) of
             Inl e \<Rightarrow> Inl e
           | Inr v \<Rightarrow>
               (case py_int v of
                  Inr i \<Rightarrow> Inr i
                | Inl TypeError \<Rightarrow> Inr 0
                | Inl ValueError \<Rightarrow> Inr 0
                | Inl e \<Rightarrow> Inl e)))"

definition copy_with_end :: "pyval \<Rightarrow> int \<Rightarrow> error + pyval" where
  "copy_with_end warning new_end =
     (case dict_get warning ''properties'' (PDict []) of
        Inl e \<Rightarrow> Inl e
      | Inr p \<Rightarrow>
          (case py_dict p of
             Inl e \<Rightarrow> Inl e
           | Inr props \<Rightarrow>
               (case py_dict (case map_of props ''rawinfo'' of None \<Rightarrow> PDict [] | Some r \<Rightarrow> r) of
                  Inl e \<Rightarrow> Inl e
                | Inr raw \<Rightarrow>
                    (case py_dict warning of
                       Inl e \<Rightarrow> Inl e
                     | Inr copy \<Rightarrow>
                         Inr (PDict (AList.update ''properties''
                           (PDict (AList.update ''rawinfo''
                             (PDict (AList.update ''end'' (PInt new_end) raw)) props)) copy))))))"

definition extend_if_grace_applies :: "pyval \<Rightarrow> int \<Rightarrow> int \<Rightarrow> bool \<Rightarrow> error + pyval option" where
  "extend_if_grace_applies warning now_ts grace_seconds allow_invalid_end =
     (case get_end_ts warning of
        Inl e \<Rightarrow> Inl e
      | Inr end_ts \<Rightarrow>
          if end_ts \<le> 0 then Inr (if allow_invalid_end then Some warning else None)
          else if now_ts \<le> end_ts then Inr (Some warning)
          else if now_ts \<le> end_ts + grace_seconds then
            (case copy_with_end warning (end_ts + grace_seconds) of
               Inl e \<Rightarrow> Inl e
             | Inr c \<Rightarrow> Inr (Some c))
          else Inr None)"

text \<open>
  Whether the raw-info block of a warning has a truthy value under one of the identity
  fields that \<^verbatim>\<open>_warning_key\<close> tries first.
\<close>

definition has_identity :: "pyval \<Rightarrow> bool" where
  "has_identity warning =
     (case rawinfo warning of
        Inr (PDict d) \<Rightarrow>
          list_ex (\<lambda>k. truthy (case map_of d k of None \<Rightarrow> PNone | Some v \<Rightarrow> v))
            [''id'', ''awcode'', ''warnid'', ''wcode'']
      | _ \<Rightarrow> False)"

section \<open>The extender on a store of objects\<close>

text \<open>
  Whether the extender changes the record it is given is a question about objects, not
  about values. Here every Python value is an object at an address of a store, a
  dictionary holds the addresses of its values, \<^verbatim>\<open>dict(x)\<close> and every literal put a new
  object at the end of the store, and an assignment \<^verbatim>\<open>d[k] = v\<close> overwrites the object
  at the address of \<open>d\<close>. The three functions are the same statements as above, on
  addresses; each returns the store it leaves.
\<close>

type_synonym addr = nat

datatype obj =
    ONone
  | OBool bool
  | OInt int
  | OFloat pyfloat
  | OStr string
  | OList "addr list"
  | ODict "(string \<times> addr) list"

type_synonym heap = "obj list"

definition heap_lookup :: "heap \<Rightarrow> addr \<Rightarrow> obj option" where
  "heap_lookup h a = (if a < length h then Some (h ! a) else None)"

definition heap_alloc :: "heap \<Rightarrow> obj \<Rightarrow> addr \<times> heap" where
  "heap_alloc h ob = (length h, h @ [ob])"

definition heap_store :: "heap \<Rightarrow> addr \<Rightarrow> obj \<Rightarrow> heap" where
  "heap_store h a ob = h[a := ob]"

text \<open>
  The value of an object as far as \<^verbatim>\<open>int\<close> looks at it: of a list or a dictionary only
  the type.
\<close>

definition scalar_of :: "obj \<Rightarrow> pyval" where
  "scalar_of ob =
     (case ob of
        ONone \<Rightarrow> PNone
      | OBool b \<Rightarrow> PBool b
      | OInt i \<Rightarrow> PInt i
      | OFloat f \<Rightarrow> PFloat f
      | OStr s \<Rightarrow> PStr s
      | OList xs \<Rightarrow> PList []
      | ODict d \<Rightarrow> PDict [])"

text \<open>\<^verbatim>\<open>obj.get(k, dflt)\<close>, where \<open>dflt\<close> is a literal: a new object.\<close>

definition heap_get :: "heap \<Rightarrow> addr \<Rightarrow> string \<Rightarrow> obj \<Rightarrow> (error + addr) \<times> heap" where
  "heap_get h a k dflt =
     (case heap_lookup h a of
        Some (ODict d) \<Rightarrow>
          (case heap_alloc h dflt of (da, h1) \<Rightarrow>
             (Inr (case map_of d k of None \<Rightarrow> da | Some v \<Rightarrow> v), h1))
      | _ \<Rightarrow> (Inl AttributeError, h))"

text \<open>\<^verbatim>\<open>dict(x)\<close>: a new dictionary with the same addresses as values.\<close>

definition heap_dict :: "heap \<Rightarrow> addr \<Rightarrow> (error + addr) \<times> heap" where
  "heap_dict h a =
     (case heap_lookup h a of
        Some (ODict d) \<Rightarrow> (case heap_alloc h (ODict d) of (c, h1) \<Rightarrow> (Inr c, h1))
      | Some (OStr s) \<Rightarrow> (Inl NotModelled, h)
      | Some (OList xs) \<Rightarrow> (Inl NotModelled, h)
      | _ \<Rightarrow> (Inl TypeError, h))"

text \<open>\<^verbatim>\<open>d[k] = v\<close> on the dictionary at address \<open>a\<close>.\<close>

definition heap_setitem :: "heap \<Rightarrow> addr \<Rightarrow> string \<Rightarrow> addr \<Rightarrow> heap" where
  "heap_setitem h a k v =
     (case heap_lookup h a of
        Some (ODict d) \<Rightarrow> heap_store h a (ODict (AList.update k v d))
      | _ \<Rightarrow> h)"

definition heap_rawinfo :: "heap \<Rightarrow> addr \<Rightarrow> (error + addr) \<times> heap" where
  "heap_rawinfo h warning =
     (case heap_get h warning ''properties'' (ODict []) of
        (Inl e, h1) \<Rightarrow> (Inl e, h1)
      | (Inr props, h1) \<Rightarrow> heap_get h1 props ''rawinfo'' (ODict []))"

definition heap_get_end_ts :: "heap \<Rightarrow> addr \<Rightarrow> (error + int) \<times> heap" where
  "heap_get_end_ts h warning =
     (case heap_rawinfo h warning of
        (Inl e, h1) \<Rightarrow> (Inl e, h1)
      | (Inr raw, h1) \<Rightarrow>
          (case heap_get h1 raw ''end'' (OInt 0) of
             (Inl e, h2) \<Rightarrow> (Inl e, h2)
           | (Inr v, h2) \<Rightarrow>
               (case py_int (case heap_lookup h2 v of None \<Rightarrow> PNone | Some ob \<Rightarrow> scalar_of ob) of
                  Inr i \<Rightarrow> (Inr i, h2)
                | Inl TypeError \<Rightarrow> (Inr 0, h2)
                | Inl ValueError \<Rightarrow> (Inr 0, h2)
                | Inl e \<Rightarrow> (Inl e, h2))))"

definition heap_copy_with_end :: "heap \<Rightarrow> addr \<Rightarrow> int \<Rightarrow> (error + addr) \<times> heap" where
  "heap_copy_with_end h warning new_end =
     (case heap_get h warning ''properties'' (ODict []) of
        (Inl e, h1) \<Rightarrow> (Inl e, h1)
      | (Inr p, h1) \<Rightarrow>
          (case heap_dict h1 p of
             (Inl e, h2) \<Rightarrow> (Inl e, h2)
           | (Inr props, h2) \<Rightarrow>
               (case heap_get h2 props ''rawinfo'' (ODict []) of
                  (Inl e, h3) \<Rightarrow> (Inl e, h3)
                | (Inr r, h3) \<Rightarrow>
                    (case heap_dict h3 r of
                       (Inl e, h4) \<Rightarrow> (Inl e, h4)
                     | (Inr raw, h4) \<Rightarrow>
                         (case heap_alloc h4 (OInt new_end) of (n, h5) \<Rightarrow>
                            (let h6 = heap_setitem h5 raw ''end'' n;
                                 h7 = heap_setitem h6 props ''rawinfo'' raw
                             in case heap_dict h7 warning of
                                  (Inl e, h8) \<Rightarrow> (Inl e, h8)
                                | (Inr copy, h8) \<Rightarrow>
                                    (Inr copy, heap_setitem h8 copy ''properties'' props)))))))"

definition heap_extend_if_grace_applies ::
    "heap \<Rightarrow> addr \<Rightarrow> int \<Rightarrow> int \<Rightarrow> bool \<Rightarrow> (error + addr option) \<times> heap" where
  "heap_extend_if_grace_applies h warning now_ts grace_seconds allow_invalid_end =
     (case heap_get_end_ts h warning of
        (Inl e, h1) \<Rightarrow> (Inl e, h1)
      | (Inr end_ts, h1) \<Rightarrow>
          if end_ts \<le> 0 then (Inr (if allow_invalid_end then Some warning else None), h1)
          else if now_ts \<le> end_ts then (Inr (Some warning), h1)
          else if now_ts \<le> end_ts + grace_seconds then
            (case heap_copy_with_end h1 warning (end_ts + grace_seconds) of
               (Inl e, h2) \<Rightarrow> (Inl e, h2)
             | (Inr c, h2) \<Rightarrow> (Inr (Some c), h2))
          else (Inr None, h1))"

text \<open>
  \<open>grows h h'\<close>: the store \<open>h'\<close> holds every object of \<open>h\<close> unchanged at its address
  (and possibly new ones behind them). \<open>no_dangling h\<close>: every address held in a list or
  dictionary of \<open>h\<close> is an address of \<open>h\<close>.
\<close>

definition grows :: "heap \<Rightarrow> heap \<Rightarrow> bool" where
  "grows h h' = (take (length h) h' = h)"

definition no_dangling :: "heap \<Rightarrow> bool" where
  "no_dangling h =
     list_all (\<lambda>ob. case ob of
                 ODict d \<Rightarrow> list_all (\<lambda>kv. snd kv < length h) d
               | OList xs \<Rightarrow> list_all (\<lambda>a. a < length h) xs
               | _ \<Rightarrow> True) h"

text \<open>
  The value an address stands for, read through at most \<open>n\<close> levels of objects, and
  the relation between a field of a dictionary object and a field of its value.
\<close>

fun reify :: "nat \<Rightarrow> heap \<Rightarrow> addr \<Rightarrow> pyval option" where
  "reify 0 h a = None"
| "reify (Suc n) h a =
     (case heap_lookup h a of
        None \<Rightarrow> None
      | Some ONone \<Rightarrow> Some PNone
      | Some (OBool b) \<Rightarrow> Some (PBool b)
      | Some (OInt i) \<Rightarrow> Some (PInt i)
      | Some (OFloat f) \<Rightarrow> Some (PFloat f)
      | Some (OStr s) \<Rightarrow> Some (PStr s)
      | Some (OList xs) \<Rightarrow> map_option PList (those (map (reify n h) xs))
      | Some (ODict d) \<Rightarrow>
          map_option PDict
            (those (map (\<lambda>kv. map_option (Pair (fst kv)) (reify n h (snd kv))) d)))"

definition denotes :: "heap \<Rightarrow> addr \<Rightarrow> pyval \<Rightarrow> bool" where
  "denotes h a v = (\<exists>n. reify n h a = Some v)"

definition field_rel :: "nat \<Rightarrow> heap \<Rightarrow> string \<times> addr \<Rightarrow> string \<times> pyval \<Rightarrow> bool" where
  "field_rel n h kv kv' = (fst kv' = fst kv \<and> reify n h (snd kv) = Some (snd kv'))"

section \<open>Extra coordinates\<close>

text \<open>\<^verbatim>\<open>s.split(sep)\<close> for a separator of one character: never an empty list.\<close>

fun split_on :: "char \<Rightarrow> string \<Rightarrow> string list" where
  "split_on sep [] = [[]]"
| "split_on sep (c # cs) =
     (if c = sep then [] # split_on sep cs
      else (case split_on sep cs of [] \<Rightarrow> [[c]] | p # ps \<Rightarrow> (c # p) # ps))"

subsection \<open>\<^verbatim>\<open>float\<close>\<close>

text \<open>
  \<^verbatim>\<open>float(s)\<close> reads, between optional whitespace, an optional sign and then
  \<^verbatim>\<open>inf\<close>, \<^verbatim>\<open>infinity\<close> or \<^verbatim>\<open>nan\<close> in any case, or a decimal number: digits with an
  optional point (\<^verbatim>\<open>1\<close>, \<^verbatim>\<open>1.\<close>, \<^verbatim>\<open>.5\<close>, \<^verbatim>\<open>1.5\<close>) and an optional exponent. It raises
  \<^verbatim>\<open>ValueError\<close> on anything else (\<open>None\<close> here). A magnitude that rounds to
  \<open>2 ^ 1024\<close> or more is an infinity.
\<close>

definition to_lower :: "char \<Rightarrow> char" where
  "to_lower c =
     (case map_of (zip ''ABCDEFGHIJKLMNOPQRSTUVWXYZ'' ''abcdefghijklmnopqrstuvwxyz'') c of
        None \<Rightarrow> c
      | Some l \<Rightarrow> l)"

fun split_first :: "(char \<Rightarrow> bool) \<Rightarrow> string \<Rightarrow> string \<times> string option" where
  "split_first P [] = ([], None)"
| "split_first P (c # cs) =
     (if P c then ([], Some cs)
      else (case split_first P cs of (before, after) \<Rightarrow> (c # before, after)))"

definition float_max_bound :: rat where
  "float_max_bound = 2 ^ 1024 - 2 ^ 970"

definition to_float :: "rat \<Rightarrow> pyfloat" where
  "to_float r = (if float_max_bound \<le> r then PosInf else if r \<le> - float_max_bound then NegInf else Finite r)"

definition mantissa :: "string \<Rightarrow> rat option" where
  "mantissa m =
     (case split_first (\<lambda>c. c = CHR ''.'') m of
        (ip, None) \<Rightarrow> map_option (\<lambda>(n, _). of_nat n) (digitpart True (0, 0) ip)
      | (ip, Some fp) \<Rightarrow>
          (if ip = [] then
             map_option (\<lambda>(n, k). of_nat n / 10 ^ k) (digitpart True (0, 0) fp)
           else
             (case digitpart True (0, 0) ip of
                None \<Rightarrow> None
              | Some (n, _) \<Rightarrow>
                  (if fp = [] then Some (of_nat n)
                   else map_option (\<lambda>(f, k). of_nat n + of_nat f / 10 ^ k) (digitpart True (0, 0) fp)))))"

definition exponent :: "string option \<Rightarrow> (bool \<times> nat) option" where
  "exponent ex =
     (case ex of
        None \<Rightarrow> Some (False, 0)
      | Some x \<Rightarrow>
          (case split_sign x of (neg, ds) \<Rightarrow>
             map_option (\<lambda>(n, _). (neg, n)) (digitpart True (0, 0) ds)))"

definition float_of_string :: "string \<Rightarrow> pyfloat option" where
  "float_of_string s =
     (case split_sign (strip s) of (neg, body) \<Rightarrow>
        (let low = map to_lower body in
         if low = ''inf'' \<or> low = ''infinity'' then Some (if neg then NegInf else PosInf)
         else if low = ''nan'' then Some NaN
         else
           (case split_first (\<lambda>c. c = CHR ''e'' \<or> c = CHR ''E'') body of (m, ex) \<Rightarrow>
              (case (mantissa m, exponent ex) of
                 (Some r, Some (eneg, k)) \<Rightarrow>
                   (let v = (if eneg then r / 10 ^ k else r * 10 ^ k)
                    in Some (to_float (if neg then - v else v)))
               | _ \<Rightarrow> None))))"

text \<open>\<^verbatim>\<open>float(v)\<close> on a value: an integer too large for a float raises \<^verbatim>\<open>OverflowError\<close>.\<close>

fun py_float :: "pyval \<Rightarrow> error + pyfloat" where
  "py_float (PFloat f) = Inr f"
| "py_float (PInt i) =
     (if float_max_bound \<le> \<bar>of_int i\<bar> then Inl OverflowError else Inr (Finite (of_int i)))"
| "py_float (PBool b) = Inr (Finite (if b then 1 else 0))"
| "py_float (PStr s) = (case float_of_string s of None \<Rightarrow> Inl ValueError | Some f \<Rightarrow> Inr f)"
| "py_float PNone = Inl TypeError"
| "py_float (PList xs) = Inl TypeError"
| "py_float (PDict d) = Inl TypeError"

subsection \<open>\<^verbatim>\<open>_parse_extra_coords\<close>\<close>

type_synonym coord = "pyfloat \<times> pyfloat"

text \<open>The loop over the segments; \<open>coords\<close> is the list built so far.\<close>

fun parse_parts :: "string list \<Rightarrow> coord list \<Rightarrow> error + coord list" where
  "parse_parts [] coords = Inr coords"
| "parse_parts (part # parts) coords =
     (let part = strip part in
      if part = [] then parse_parts parts coords
      else
        (let pieces = split_on CHR '','' part in
         if length pieces \<noteq> 2 then parse_parts parts coords
         else
           (case py_float (PStr (strip (pieces ! 0))) of
              Inl TypeError \<Rightarrow> parse_parts parts coords
            | Inl ValueError \<Rightarrow> parse_parts parts coords
            | Inl e \<Rightarrow> Inl e
            | Inr lat \<Rightarrow>
                (case py_float (PStr (strip (pieces ! 1))) of
                   Inl TypeError \<Rightarrow> parse_parts parts coords
                 | Inl ValueError \<Rightarrow> parse_parts parts coords
                 | Inl e \<Rightarrow> Inl e
                 | Inr lon \<Rightarrow> parse_parts parts (coords @ [(lat, lon)])))))"

definition parse_extra_coords :: "string \<Rightarrow> error + coord list" where
  "parse_extra_coords text_in =
     (if text_in = [] then Inr [] else parse_parts (split_on CHR '';'' text_in) [])"

text \<open>
  The same in the words of the specification: what one segment contributes, and the
  segments that survive, in input order.
\<close>

definition segment_coord :: "string \<Rightarrow> coord option" where
  "segment_coord seg =
     (let t = strip seg in
      if t = [] then None
      else
        (case split_on CHR '','' t of
           [a, b] \<Rightarrow>
             (case (float_of_string (strip a), float_of_string (strip b)) of
                (Some lat, Some lon) \<Rightarrow> Some (lat, lon)
              | _ \<Rightarrow> None)
         | _ \<Rightarrow> None))"

definition surviving_coords :: "string \<Rightarrow> coord list" where
  "surviving_coords text_in = List.map_filter segment_coord (split_on CHR '';'' text_in)"

section \<open>The coordinator\<close>

text \<open>
  An entry of the warning cache is the dictionary
  \<^verbatim>\<open>{"warning": warning, "last_seen_ts": now_ts}\<close>; the coordinator reads both fields with
  \<^verbatim>\<open>.get\<close> and a default, so each may be absent.
\<close>

record cache_entry =
  warning :: "pyval option"
  last_seen_ts :: "int option"

text \<open>The fields of \<^verbatim>\<open>geosphereCoordinator\<close> that \<^verbatim>\<open>_async_update_data\<close> reads and writes.
  A time is the number of seconds since the epoch.\<close>

record coordinator =
  last_http_status :: "int option"
  last_http_response :: "string option"
  had_partial_failure :: bool
  last_successful_data :: "pyval option"
  last_non_empty_data :: "pyval option"
  last_non_empty_utc :: "rat option"
  warning_cache :: "(string \<times> cache_entry) list"
  last_request_utc :: "rat option"

text \<open>
  What one \<^verbatim>\<open>session.get\<close> does: it raises (the text is \<^verbatim>\<open>repr\<close> of the exception), or it
  answers with a status, the outcome of \<^verbatim>\<open>resp.text()\<close> (\<open>None\<close> when it raises) and the
  outcome of \<^verbatim>\<open>resp.json()\<close> (\<open>Inl\<close> the \<^verbatim>\<open>repr\<close> of the exception when it raises).
\<close>

datatype response =
    Raised string
  | Response int "string option" "string + pyval"

text \<open>
  What one cycle reads from outside: the clock, the two configuration values that
  \<^verbatim>\<open>_get_entry_value\<close> resolves for \<^verbatim>\<open>CONF_GRACE_PERIOD\<close> and \<^verbatim>\<open>CONF_EXTRA_COORDS\<close>
  (their keys and defaults are constants of \<^verbatim>\<open>const.py\<close>), the attributes of the state
  \<^verbatim>\<open>zone.home\<close> (\<open>None\<close> when there is no such state), and the answer to the request for
  the coordinate at each position of the list.
\<close>

record cycle_env =
  utcnow :: rat
  grace_period :: int
  extra_coords :: string
  zone_home :: "pydict option"
  responses :: "nat \<Rightarrow> response"

subsection \<open>One request\<close>

text \<open>The \<^verbatim>\<open>repr\<close> of the exceptions that the handling of a decoded body can raise.\<close>

definition type_name :: "pyval \<Rightarrow> string" where
  "type_name v =
     (case v of
        PNone \<Rightarrow> ''NoneType''
      | PBool b \<Rightarrow> ''bool''
      | PInt i \<Rightarrow> ''int''
      | PFloat f \<Rightarrow> ''float''
      | PStr s \<Rightarrow> ''str''
      | PList xs \<Rightarrow> ''list''
      | PDict d \<Rightarrow> ''dict'')"

definition quoted :: "string \<Rightarrow> string" where
  "quoted s = CHR 0x27 # s @ [CHR 0x27]"

definition no_get_repr :: "pyval \<Rightarrow> string" where
  "no_get_repr v =
     ''AttributeError('' @ [CHR 0x22] @ quoted (type_name v) @ '' object has no attribute ''
       @ quoted ''get'' @ [CHR 0x22] @ '')''"

definition not_iterable_repr :: "pyval \<Rightarrow> string" where
  "not_iterable_repr v =
     ''TypeError('' @ [CHR 0x22] @ quoted (type_name v) @ '' object is not iterable''
       @ [CHR 0x22] @ '')''"

text \<open>\<^verbatim>\<open>v or d\<close>\<close>

definition or_else :: "pyval \<Rightarrow> pyval \<Rightarrow> pyval" where
  "or_else v d = (if truthy v then v else d)"

text \<open>
  The statements after \<^verbatim>\<open>any_success = True\<close>: the warnings that \<^verbatim>\<open>extend\<close> appends to
  the combined list (the elements of a list, the characters of a string, the keys of a
  dictionary), or the \<^verbatim>\<open>repr\<close> of the exception.
\<close>

definition extract_warnings :: "pyval \<Rightarrow> string + pyval list" where
  "extract_warnings body =
     (case body of
        PDict d \<Rightarrow>
          (case or_else (case map_of d ''properties'' of None \<Rightarrow> PDict [] | Some p \<Rightarrow> p) (PDict []) of
             PDict pd \<Rightarrow>
               (case or_else (case map_of pd ''warnings'' of None \<Rightarrow> PList [] | Some ws \<Rightarrow> ws) (PList []) of
                  PList ws \<Rightarrow> Inr ws
                | PStr s \<Rightarrow> Inr (map (\<lambda>c. PStr [c]) s)
                | PDict wd \<Rightarrow> Inr (map (\<lambda>kv. PStr (fst kv)) wd)
                | v \<Rightarrow> Inl (not_iterable_repr v))
           | v \<Rightarrow> Inl (no_get_repr v))
      | v \<Rightarrow> Inl (no_get_repr v))"

text \<open>The variables of the loop over the coordinates.\<close>

record fetch_state =
  combined_warnings :: "pyval list"
  any_success :: bool
  max_http_status :: "int option"
  error_messages :: "string list"

definition coord_prefix :: "(pyval \<Rightarrow> string) \<Rightarrow> coord \<Rightarrow> string" where
  "coord_prefix repr c = py_str repr (PFloat (fst c)) @ '','' @ py_str repr (PFloat (snd c)) @ '': ''"

text \<open>The body of the loop for one coordinate and the answer to its request.\<close>

definition fetch_one :: "(pyval \<Rightarrow> string) \<Rightarrow> coord \<Rightarrow> response \<Rightarrow> fetch_state \<Rightarrow> fetch_state" where
  "fetch_one repr c resp st =
     (case resp of
        Raised err \<Rightarrow> st\<lparr>error_messages := error_messages st @ [coord_prefix repr c @ err]\<rparr>
      | Response status body js \<Rightarrow>
          (let st1 = st\<lparr>max_http_status :=
                 (case max_http_status st of
                    None \<Rightarrow> Some status
                  | Some m \<Rightarrow> if status > m then Some status else Some m)\<rparr>
           in if status \<noteq> 200 then
                st1\<lparr>error_messages := error_messages st1 @
                  [coord_prefix repr c @ ''HTTP '' @ str_int status @ '' '' @
                     (case body of None \<Rightarrow> ''<no body>'' | Some t \<Rightarrow> t)]\<rparr>
              else
                (case js of
                   Inl err \<Rightarrow> st1\<lparr>error_messages := error_messages st1 @ [coord_prefix repr c @ err]\<rparr>
                 | Inr body_json \<Rightarrow>
                     (let st2 = st1\<lparr>any_success := True\<rparr>
                      in case extract_warnings body_json of
                           Inl err \<Rightarrow>
                             st2\<lparr>error_messages := error_messages st2 @ [coord_prefix repr c @ err]\<rparr>
                         | Inr ws \<Rightarrow> st2\<lparr>combined_warnings := combined_warnings st2 @ ws\<rparr>))))"

fun fetch_loop :: "(pyval \<Rightarrow> string) \<Rightarrow> (nat \<Rightarrow> response) \<Rightarrow> nat \<Rightarrow> coord list \<Rightarrow> fetch_state \<Rightarrow> fetch_state" where
  "fetch_loop repr rs i [] st = st"
| "fetch_loop repr rs i (c # cs) st = fetch_loop repr rs (Suc i) cs (fetch_one repr c (rs i) st)"

definition fetch_all :: "(pyval \<Rightarrow> string) \<Rightarrow> (nat \<Rightarrow> response) \<Rightarrow> coord list \<Rightarrow> fetch_state" where
  "fetch_all repr rs coords =
     fetch_loop repr rs 0 coords
       \<lparr>combined_warnings = [], any_success = False, max_http_status = None, error_messages = []\<rparr>"

subsection \<open>Cache and grace\<close>

text \<open>The variables of the loop over the combined warnings; \<open>cache\<close> is \<^verbatim>\<open>self._warning_cache\<close>.\<close>

record reconciliation =
  current_keys :: "string set"
  cache :: "(string \<times> cache_entry) list"
  warnings_with_grace :: "pyval list"

text \<open>
  The loop over the combined warnings. An exception leaves the loop with the cache as it
  is at that moment.
\<close>

fun fresh_loop :: "(pyval \<Rightarrow> string) \<Rightarrow> int \<Rightarrow> int \<Rightarrow> pyval list \<Rightarrow> reconciliation \<Rightarrow> error option \<times> reconciliation" where
  "fresh_loop repr now_ts grace [] st = (None, st)"
| "fresh_loop repr now_ts grace (w # ws) st =
     (case warning_key repr w of
        Inl e \<Rightarrow> (Some e, st)
      | Inr key \<Rightarrow>
          (let st1 = st\<lparr>current_keys := insert key (current_keys st),
                         cache := AList.update key
                           \<lparr>warning = Some w, last_seen_ts = Some now_ts\<rparr> (cache st)\<rparr>
           in case extend_if_grace_applies w now_ts grace True of
                Inl e \<Rightarrow> (Some e, st1)
              | Inr None \<Rightarrow> fresh_loop repr now_ts grace ws st1
              | Inr (Some extended) \<Rightarrow>
                  fresh_loop repr now_ts grace ws
                    (st1\<lparr>warnings_with_grace := warnings_with_grace st1 @ [extended]\<rparr>)))"

text \<open>
  The loop over the items of the cache, which collects the expired keys and appends to
  the output; \<open>seen\<close> are the keys of this cycle.
\<close>

fun cache_loop :: "int \<Rightarrow> int \<Rightarrow> string set \<Rightarrow> (string \<times> cache_entry) list \<Rightarrow>
    string list \<times> pyval list \<Rightarrow> error option \<times> string list \<times> pyval list" where
  "cache_loop now_ts grace seen [] acc = (None, acc)"
| "cache_loop now_ts grace seen ((key, entry) # rest) (expired_keys, out) =
     (if key \<in> seen then cache_loop now_ts grace seen rest (expired_keys, out)
      else
        (let cached = (case warning entry of None \<Rightarrow> PDict [] | Some w \<Rightarrow> w);
             last_seen = (case last_seen_ts entry of None \<Rightarrow> 0 | Some t \<Rightarrow> t)
         in if grace \<le> 0 \<or> last_seen = 0 then
              cache_loop now_ts grace seen rest (expired_keys @ [key], out)
            else if now_ts - last_seen > grace then
              cache_loop now_ts grace seen rest (expired_keys @ [key], out)
            else
              (case extend_if_grace_applies cached now_ts grace False of
                 Inl e \<Rightarrow> (Some e, expired_keys, out)
               | Inr (Some extended) \<Rightarrow> cache_loop now_ts grace seen rest (expired_keys, out @ [extended])
               | Inr None \<Rightarrow> cache_loop now_ts grace seen rest (expired_keys @ [key], out))))"

definition cycle_result :: "pyval list \<Rightarrow> pyval" where
  "cycle_result ws = PDict [(''properties'', PDict [(''warnings'', PList ws)])]"

subsection \<open>The cycle\<close>

text \<open>
  The coordinates to query: the anchor from \<^verbatim>\<open>zone.home\<close>, then the extra coordinates.
  \<^verbatim>\<open>float(lat)\<close> is evaluated before \<^verbatim>\<open>float(lon)\<close>, and only \<^verbatim>\<open>TypeError\<close> and
  \<^verbatim>\<open>ValueError\<close> are caught.
\<close>

definition resolve_coords :: "cycle_env \<Rightarrow> error + coord list" where
  "resolve_coords env =
     (case zone_home env of
        None \<Rightarrow> Inl (UpdateFailed ''zone.home not found'')
      | Some attributes \<Rightarrow>
          (let lon = (case map_of attributes ''longitude'' of None \<Rightarrow> PNone | Some v \<Rightarrow> v);
               lat = (case map_of attributes ''latitude'' of None \<Rightarrow> PNone | Some v \<Rightarrow> v)
           in if lon = PNone \<or> lat = PNone then Inl (UpdateFailed ''zone.home has no coordinates'')
              else
                (case py_float lat of
                   Inl TypeError \<Rightarrow> Inl (UpdateFailed ''zone.home has invalid coordinates'')
                 | Inl ValueError \<Rightarrow> Inl (UpdateFailed ''zone.home has invalid coordinates'')
                 | Inl e \<Rightarrow> Inl e
                 | Inr flat \<Rightarrow>
                     (case py_float lon of
                        Inl TypeError \<Rightarrow> Inl (UpdateFailed ''zone.home has invalid coordinates'')
                      | Inl ValueError \<Rightarrow> Inl (UpdateFailed ''zone.home has invalid coordinates'')
                      | Inl e \<Rightarrow> Inl e
                      | Inr flon \<Rightarrow>
                          (case parse_extra_coords (extra_coords env) of
                             Inl e \<Rightarrow> Inl e
                           | Inr extras \<Rightarrow>
                               (let coords = [(flat, flon)] @ extras
                                in if coords = [] then Inl (UpdateFailed ''no coordinates to query'')
                                   else Inr coords))))))"

text \<open>The branch \<^verbatim>\<open>if any_success:\<close>, from the state \<open>self\<close> the requests have left.\<close>

definition reconcile :: "(pyval \<Rightarrow> string) \<Rightarrow> cycle_env \<Rightarrow> pyval list \<Rightarrow> coordinator \<Rightarrow> (error + pyval) \<times> coordinator" where
  "reconcile repr env combined self =
     (let now_ts = py_trunc (utcnow env);
          grace = grace_period env
      in case fresh_loop repr now_ts grace combined
                \<lparr>current_keys = {}, cache = warning_cache self, warnings_with_grace = []\<rparr> of
           (Some e, r) \<Rightarrow> (Inl e, self\<lparr>warning_cache := cache r\<rparr>)
         | (None, r) \<Rightarrow>
             (case cache_loop now_ts grace (current_keys r) (cache r) ([], warnings_with_grace r) of
                (Some e, acc) \<Rightarrow> (Inl e, self\<lparr>warning_cache := cache r\<rparr>)
              | (None, expired_keys, out) \<Rightarrow>
                  (let result = cycle_result out;
                       self1 = self\<lparr>warning_cache := fold AList.delete expired_keys (cache r),
                                     last_successful_data := Some result\<rparr>
                   in (Inr result,
                       if out \<noteq> [] then
                         self1\<lparr>last_non_empty_data := Some result,
                                last_non_empty_utc := last_request_utc self\<rparr>
                       else self1))))"

text \<open>The three assignments and the \<^verbatim>\<open>raise\<close> of a failure before any request.\<close>

definition pre_fetch_failure :: "string \<Rightarrow> coordinator \<Rightarrow> (error + pyval) \<times> coordinator" where
  "pre_fetch_failure msg self =
     (Inl (UpdateFailed msg), self\<lparr>last_http_status := None, last_http_response := Some msg\<rparr>)"

text \<open>
  \<^verbatim>\<open>_async_update_data\<close>: what it returns or raises, and the coordinator it leaves.
\<close>

definition async_update_data :: "(pyval \<Rightarrow> string) \<Rightarrow> cycle_env \<Rightarrow> coordinator \<Rightarrow> (error + pyval) \<times> coordinator" where
  "async_update_data repr env self0 =
     (let self = self0\<lparr>last_request_utc := Some (utcnow env)\<rparr>
      in case resolve_coords env of
           Inl (UpdateFailed msg) \<Rightarrow> pre_fetch_failure msg self
         | Inl e \<Rightarrow> (Inl e, self)
         | Inr coords \<Rightarrow>
             (let fs = fetch_all repr (responses env) coords;
                  self1 = self\<lparr>had_partial_failure := (error_messages fs \<noteq> []),
                                last_http_status :=
                                  (case max_http_status fs of
                                     None \<Rightarrow> if any_success fs then Some 200 else None
                                   | Some m \<Rightarrow> Some m),
                                last_http_response :=
                                  (if error_messages fs \<noteq> [] then Some (join ''; '' (error_messages fs))
                                   else None)\<rparr>
              in if any_success fs then reconcile repr env (combined_warnings fs) self1
                 else
                   (case last_successful_data self1 of
                      Some snapshot \<Rightarrow> (Inr snapshot, self1)
                    | None \<Rightarrow> (Inl (UpdateFailed ''Error fetching data: all requests failed''), self1))))"

text \<open>A request succeeds when it answers 200 and its body decodes.\<close>

definition fetch_succeeds :: "response \<Rightarrow> bool" where
  "fetch_succeeds r = (case r of Response status body (Inr d) \<Rightarrow> status = 200 | _ \<Rightarrow> False)"




section \<open>Example documents\<close>

text \<open>
  For the examples \<open>repr0\<close> writes the floats that occur in them as Python does; they
  hold no other float, and no list or dictionary, in a place that is written out as text.
\<close>

definition repr0 :: "pyval \<Rightarrow> string" where
  "repr0 v =
     (if v = PFloat (Finite 47) then ''47.0''
      else if v = PFloat (Finite 13) then ''13.0''
      else if v = PFloat (Finite (97 / 2)) then ''48.5''
      else if v = PFloat (Finite 14) then ''14.0''
      else [])"

text \<open>A warning without identity fields, and what the extender returns for it at a grace of 60.\<close>

definition warning_a :: pyval where
  "warning_a = PDict [(''type'', PStr ''Feature''),
     (''properties'', PDict [(''rawinfo'',
        PDict [(''wtype'', PInt 1), (''wlevel'', PInt 2), (''start'', PStr ''50''), (''end'', PStr ''100'')])])]"

definition warning_a_extended :: pyval where
  "warning_a_extended = PDict [(''type'', PStr ''Feature''),
     (''properties'', PDict [(''rawinfo'',
        PDict [(''wtype'', PInt 1), (''wlevel'', PInt 2), (''start'', PStr ''50''), (''end'', PInt 160)])])]"

text \<open>A warning with an \<^verbatim>\<open>id\<close>.\<close>

definition warning_b :: pyval where
  "warning_b = PDict [(''properties'', PDict [(''rawinfo'',
        PDict [(''id'', PStr ''w17''), (''wtype'', PInt 1), (''end'', PInt 100)])])]"



text \<open>A warning whose end is the float infinity, as \<^verbatim>\<open>json\<close> reads \<^verbatim>\<open>1e999\<close>.\<close>

definition warning_inf_end :: pyval where
  "warning_inf_end = PDict [(''properties'', PDict [(''rawinfo'',
        PDict [(''id'', PStr ''w20''), (''end'', PFloat PosInf)])])]"

text \<open>\<open>warning_b\<close> as objects: the warning is at address 0.\<close>

definition heap_b :: heap where
  "heap_b = [ODict [(''properties'', 1)], ODict [(''rawinfo'', 2)],
             ODict [(''id'', 3), (''wtype'', 4), (''end'', 5)], OStr ''w17'', OInt 1, OInt 100]"

text \<open>The coordinator as \<^verbatim>\<open>__init__\<close> leaves it, and a body of the warning service.\<close>

definition init_coordinator :: coordinator where
  "init_coordinator =
     \<lparr>last_http_status = None, last_http_response = None, had_partial_failure = False,
      last_successful_data = None, last_non_empty_data = None, last_non_empty_utc = None,
      warning_cache = [], last_request_utc = None\<rparr>"

definition geo_body :: "pyval list \<Rightarrow> pyval" where
  "geo_body ws = PDict [(''type'', PStr ''Feature''), (''properties'', PDict [(''warnings'', PList ws)])]"

text \<open>
  Cycles: two coordinates of which the second answers 500; no coordinate succeeds; one
  coordinate and no warning; no home zone; a home zone with a given latitude. A
  coordinator that has seen \<open>warning_b\<close> at time 100.
\<close>

definition home :: pydict where
  "home = [(''latitude'', PFloat (Finite 47)), (''longitude'', PFloat (Finite 13)), (''radius'', PInt 100)]"


definition env_down :: cycle_env where
  "env_down =
     \<lparr>utcnow = 1000, grace_period = 60, extra_coords = ''48.5, 14'',
      zone_home = Some home,
      responses = (\<lambda>i. if i = 0 then Raised ''TimeoutError()''
                         else Response 503 None (Inr (geo_body [warning_b])))\<rparr>"




definition entry_b :: cache_entry where
  "entry_b = \<lparr>warning = Some warning_b, last_seen_ts = Some 100\<rparr>"

definition coordinator_b :: coordinator where
  "coordinator_b =
     \<lparr>last_http_status = Some 200, last_http_response = None, had_partial_failure = False,
      last_successful_data = Some (cycle_result [warning_b]),
      last_non_empty_data = Some (cycle_result [warning_b]), last_non_empty_utc = Some 100,
      warning_cache = [(''id:w17'', entry_b)], last_request_utc = Some 100\<rparr>"

section \<open>Properties of the end time and of the copy\<close>


text \<open>A positive end time is read from a field that is there: every default gives 0.\<close>

lemma get_end_ts_pos_shape:
  assumes "get_end_ts w = Inr e" and "0 < e"
  shows "\<exists>wd pd rd v. w = PDict wd \<and> map_of wd ''properties'' = Some (PDict pd)
           \<and> map_of pd ''rawinfo'' = Some (PDict rd) \<and> map_of rd ''end'' = Some v \<and> py_int v = Inr e"
  using assms
  by (auto simp: get_end_ts_def rawinfo_def dict_get_def
           split: pyval.splits option.splits sum.splits error.splits)

lemma copy_with_end_shape:
  assumes "w = PDict wd" and "map_of wd ''properties'' = Some (PDict pd)"
    and "map_of pd ''rawinfo'' = Some (PDict rd)"
  shows "copy_with_end w n =
     Inr (PDict (AList.update ''properties''
        (PDict (AList.update ''rawinfo'' (PDict (AList.update ''end'' (PInt n) rd)) pd)) wd))"
  using assms by (simp add: copy_with_end_def dict_get_def py_dict_def)

lemma rawinfo_copy:
  "rawinfo (PDict (AList.update ''properties''
        (PDict (AList.update ''rawinfo'' r pd)) wd)) = Inr r"
  by (simp add: rawinfo_def dict_get_def update_conv')

lemma get_end_ts_copy:
  "get_end_ts (PDict (AList.update ''properties''
        (PDict (AList.update ''rawinfo'' (PDict (AList.update ''end'' (PInt n) rd)) pd)) wd)) = Inr n"
  by (simp add: get_end_ts_def rawinfo_copy dict_get_def update_conv')

lemma first_identity_update_end:
  "set ks \<subseteq> {''id'', ''awcode'', ''warnid'', ''wcode''} \<Longrightarrow>
   first_identity repr (AList.update ''end'' v rd) ks = first_identity repr rd ks"
  by (induction ks) (auto simp: update_conv' Let_def)

lemma first_identity_None_iff:
  "first_identity repr rd ks = None \<longleftrightarrow>
   \<not> list_ex (\<lambda>k. truthy (case map_of rd k of None \<Rightarrow> PNone | Some v \<Rightarrow> v)) ks"
  by (induction ks) (auto simp: Let_def)

lemma field_str_update_end:
  "k \<noteq> ''end'' \<Longrightarrow> field_str repr (AList.update ''end'' v rd) k = field_str repr rd k"
  by (simp add: field_str_def update_conv')

lemma field_str_end_update:
  "field_str repr (AList.update ''end'' (PInt n) rd) ''end'' = str_int n"
  by (simp add: field_str_def update_conv')

text \<open>The grace branch of the extender, with the copy it returns.\<close>

lemma extend_grace_branch:
  assumes "get_end_ts w = Inr e" and "0 < e" and "e < now" and "now \<le> e + g"
  shows "\<exists>wd pd rd. w = PDict wd \<and> map_of wd ''properties'' = Some (PDict pd)
           \<and> map_of pd ''rawinfo'' = Some (PDict rd)
           \<and> extend_if_grace_applies w now g allow =
               Inr (Some (PDict (AList.update ''properties''
                 (PDict (AList.update ''rawinfo'' (PDict (AList.update ''end'' (PInt (e + g)) rd)) pd)) wd)))"
proof -
  from get_end_ts_pos_shape [OF assms(1,2)] obtain wd pd rd v where
    sh: "w = PDict wd" "map_of wd ''properties'' = Some (PDict pd)"
        "map_of pd ''rawinfo'' = Some (PDict rd)"
    by blast
  have "extend_if_grace_applies w now g allow =
          (case copy_with_end w (e + g) of Inl x \<Rightarrow> Inl x | Inr c \<Rightarrow> Inr (Some c))"
    using assms by (simp add: extend_if_grace_applies_def)
  moreover note copy_with_end_shape [OF sh, of "e + g"]
  ultimately show ?thesis using sh by simp
qed

text \<open>The definitions that evaluate the example documents.\<close>

lemmas warning_eval =
  get_end_ts_def rawinfo_def dict_get_def int_of_string_def strip_def is_space_def
  split_sign_def is_digit_def digit_val_def extend_if_grace_applies_def copy_with_end_def
  py_dict_def warning_key_def field_str_def join_def str_int_def str_nat.simps digit_char_def
  has_identity_def

section \<open>The key of a grace-extended copy\<close>

text \<open>
  C1, as the code has it. Whenever the extender rewrites the end of a warning (its end
  time \<open>e\<close> is valid and \<open>e < now \<le> e + g\<close>), the copy has the key of the original if
  the raw-info block holds a truthy \<^verbatim>\<open>id\<close>, \<^verbatim>\<open>awcode\<close>, \<^verbatim>\<open>warnid\<close> or \<^verbatim>\<open>wcode\<close>.
  Without such a field the key is the composite
  \<^verbatim>\<open>wtype|wlevel|start|end\<close>: the copy keeps the first three parts and ends in the
  decimal text of \<open>e + g\<close>, where the original ends in the text of its own end field.
\<close>

theorem warning_key_of_extended_copy:
  assumes "get_end_ts w = Inr e" and "0 < e" and "e < now" and "now \<le> e + g"
  shows "\<exists>c rd. extend_if_grace_applies w now g allow = Inr (Some c)
           \<and> rawinfo w = Inr (PDict rd)
           \<and> (has_identity w \<longrightarrow> warning_key repr c = warning_key repr w)
           \<and> (\<not> has_identity w \<longrightarrow>
                 warning_key repr w = Inr (join ''|''
                   [field_str repr rd ''wtype'', field_str repr rd ''wlevel'',
                    field_str repr rd ''start'', field_str repr rd ''end''])
               \<and> warning_key repr c = Inr (join ''|''
                   [field_str repr rd ''wtype'', field_str repr rd ''wlevel'',
                    field_str repr rd ''start'', str_int (e + g)]))"
proof -
  from extend_grace_branch [OF assms, of allow] obtain wd pd rd where
    sh: "w = PDict wd" "map_of wd ''properties'' = Some (PDict pd)"
        "map_of pd ''rawinfo'' = Some (PDict rd)"
    and ext: "extend_if_grace_applies w now g allow =
               Inr (Some (PDict (AList.update ''properties''
                 (PDict (AList.update ''rawinfo'' (PDict (AList.update ''end'' (PInt (e + g)) rd)) pd)) wd)))"
    by blast
  let ?c = "PDict (AList.update ''properties''
                 (PDict (AList.update ''rawinfo'' (PDict (AList.update ''end'' (PInt (e + g)) rd)) pd)) wd)"
  have raw: "rawinfo w = Inr (PDict rd)"
    using sh by (simp add: rawinfo_def dict_get_def)
  have rawc: "rawinfo ?c = Inr (PDict (AList.update ''end'' (PInt (e + g)) rd))"
    by (rule rawinfo_copy)
  have ids: "first_identity repr (AList.update ''end'' (PInt (e + g)) rd) [''id'', ''awcode'', ''warnid'', ''wcode'']
           = first_identity repr rd [''id'', ''awcode'', ''warnid'', ''wcode'']"
    by (rule first_identity_update_end) simp
  have hid: "has_identity w \<longleftrightarrow> first_identity repr rd [''id'', ''awcode'', ''warnid'', ''wcode''] \<noteq> None"
    unfolding has_identity_def raw first_identity_None_iff by simp
  have k1: "has_identity w \<Longrightarrow> warning_key repr ?c = warning_key repr w"
    using hid by (auto simp: warning_key_def raw rawc ids simp del: first_identity.simps)
  have k2: "\<not> has_identity w \<Longrightarrow> warning_key repr w = Inr (join ''|''
                   [field_str repr rd ''wtype'', field_str repr rd ''wlevel'',
                    field_str repr rd ''start'', field_str repr rd ''end''])"
    using hid by (simp add: warning_key_def raw del: first_identity.simps)
  have k3: "\<not> has_identity w \<Longrightarrow> warning_key repr ?c = Inr (join ''|''
                   [field_str repr rd ''wtype'', field_str repr rd ''wlevel'',
                    field_str repr rd ''start'', str_int (e + g)])"
    using hid by (simp add: warning_key_def rawc ids field_str_update_end field_str_end_update
                    del: first_identity.simps)
  from ext raw k1 k2 k3 show ?thesis by blast
qed

text \<open>The theorem at a warning with an \<^verbatim>\<open>id\<close>, end 100, read at 120 with a grace of 60.\<close>

theorem warning_key_of_extended_copy_witness:
  "get_end_ts warning_b = Inr 100 \<and> has_identity warning_b
   \<and> (\<exists>c. extend_if_grace_applies warning_b 120 60 False = Inr (Some c)
          \<and> c \<noteq> warning_b
          \<and> warning_key repr0 c = Inr ''id:w17''
          \<and> warning_key repr0 c = warning_key repr0 warning_b)"
proof -
  have e: "get_end_ts warning_b = Inr 100"
    by (simp add: warning_b_def get_end_ts_def rawinfo_def dict_get_def)
  have h: "has_identity warning_b"
    by (simp add: warning_b_def has_identity_def rawinfo_def dict_get_def)
  have k: "warning_key repr0 warning_b = Inr ''id:w17''"
    by (simp add: warning_b_def warning_key_def rawinfo_def dict_get_def)
  from warning_key_of_extended_copy [OF e, of 120 60 False repr0] h
  obtain c where c: "extend_if_grace_applies warning_b 120 60 False = Inr (Some c)"
    "warning_key repr0 c = warning_key repr0 warning_b"
    by auto
  have "c \<noteq> warning_b"
    using c(1) by (auto simp: warning_b_def warning_eval)
  with e h k c show ?thesis by auto
qed

text \<open>
  The claim as stated fails where the fallback key is used: a warning with the fields
  \<^verbatim>\<open>wtype\<close> 1, \<^verbatim>\<open>wlevel\<close> 2, \<^verbatim>\<open>start\<close> "50", \<^verbatim>\<open>end\<close> "100" and no identity field,
  read at 120 with a grace of 60, is extended to end 160, and the key of the copy is
  \<^verbatim>\<open>1|2|50|160\<close> where the key of the original is \<^verbatim>\<open>1|2|50|100\<close>.
\<close>

theorem warning_key_of_extended_copy_counterexample:
  "get_end_ts warning_a = Inr 100
   \<and> extend_if_grace_applies warning_a 120 60 True = Inr (Some warning_a_extended)
   \<and> warning_key repr0 warning_a = Inr ''1|2|50|100''
   \<and> warning_key repr0 warning_a_extended = Inr ''1|2|50|160''
   \<and> warning_key repr0 warning_a_extended \<noteq> warning_key repr0 warning_a"
  by (simp add: warning_a_def warning_a_extended_def warning_eval)

section \<open>The end time of what the extender returns\<close>

text \<open>
  C2, as the code has it. For a warning with a valid end time \<open>e > 0\<close> and a grace
  \<open>g \<ge> 0\<close>: at every \<open>now \<le> e + g\<close> the extender returns a record whose end time
  \<open>e'\<close> satisfies \<open>e \<le> e' \<le> e + g\<close>, and at every \<open>now > e + g\<close> it returns nothing.
\<close>

theorem extend_within_grace_bounds:
  assumes "get_end_ts w = Inr e" and "0 < e" and "0 \<le> g"
  shows "(now \<le> e + g \<longrightarrow>
            (\<exists>c e'. extend_if_grace_applies w now g allow = Inr (Some c)
                \<and> get_end_ts c = Inr e' \<and> e \<le> e' \<and> e' \<le> e + g))
       \<and> (e + g < now \<longrightarrow> extend_if_grace_applies w now g allow = Inr None)"
proof (intro conjI impI)
  assume le: "now \<le> e + g"
  show "\<exists>c e'. extend_if_grace_applies w now g allow = Inr (Some c)
          \<and> get_end_ts c = Inr e' \<and> e \<le> e' \<and> e' \<le> e + g"
  proof (cases "now \<le> e")
    case True
    with assms have "extend_if_grace_applies w now g allow = Inr (Some w)"
      by (simp add: extend_if_grace_applies_def)
    with assms show ?thesis by auto
  next
    case False
    then have "e < now" by simp
    from extend_grace_branch [OF assms(1,2) this le, of allow] obtain wd pd rd where
      "extend_if_grace_applies w now g allow =
         Inr (Some (PDict (AList.update ''properties''
           (PDict (AList.update ''rawinfo'' (PDict (AList.update ''end'' (PInt (e + g)) rd)) pd)) wd)))"
      by blast
    with assms(3) get_end_ts_copy [of "e + g" rd pd wd] show ?thesis by auto
  qed
next
  assume "e + g < now"
  with assms show "extend_if_grace_applies w now g allow = Inr None"
    by (simp add: extend_if_grace_applies_def)
qed

text \<open>The theorem at end 100 and grace 60: extended at 120, dropped at 161.\<close>

theorem extend_within_grace_bounds_witness:
  "(\<exists>c e'. extend_if_grace_applies warning_a 120 60 False = Inr (Some c)
        \<and> get_end_ts c = Inr e' \<and> 100 \<le> e' \<and> e' \<le> 160)
   \<and> extend_if_grace_applies warning_a 161 60 False = Inr None"
proof -
  have e: "get_end_ts warning_a = Inr 100"
    by (simp add: warning_a_def warning_eval)
  from extend_within_grace_bounds [OF e, of 60 120 False]
       extend_within_grace_bounds [OF e, of 60 161 False]
  show ?thesis by simp
qed

text \<open>
  With a negative grace the claim as stated fails in both halves. At end 100 and grace
  \<open>-10\<close>: at \<open>now = 95 > e + g\<close> the warning is returned, not dropped; at
  \<open>now = 85 \<le> e + g\<close> the warning is returned with its end 100, which is above
  \<open>e + g = 90\<close>.
\<close>

theorem extend_within_grace_bounds_counterexample:
  "get_end_ts warning_a = Inr 100
   \<and> (95::int) > 100 + (- 10)
   \<and> extend_if_grace_applies warning_a 95 (- 10) False = Inr (Some warning_a)
   \<and> (85::int) \<le> 100 + (- 10)
   \<and> extend_if_grace_applies warning_a 85 (- 10) False = Inr (Some warning_a)
   \<and> \<not> (100::int) \<le> 100 + (- 10)"
  by (simp add: warning_a_def warning_eval)

lemma py_int_raises:
  "py_int v = Inl x \<Longrightarrow> x = TypeError \<or> x = ValueError \<or> x = OverflowError"
  by (induction v rule: py_int.induct) (auto split: option.splits)

text \<open>
  \<^verbatim>\<open>_get_end_ts\<close> raises where a \<^verbatim>\<open>.get\<close> meets something that is no dictionary, and
  where the end is an infinite float: \<^verbatim>\<open>int\<close> raises \<^verbatim>\<open>OverflowError\<close> there, which
  the \<^verbatim>\<open>except\<close> clause does not name.
\<close>

lemma get_end_ts_raises:
  "get_end_ts w = Inl x \<Longrightarrow> x = AttributeError \<or> x = OverflowError"
  by (auto simp: get_end_ts_def rawinfo_def dict_get_def dest: py_int_raises
           split: pyval.splits option.splits sum.splits error.splits)

lemma infinite_end_raises:
  "get_end_ts warning_inf_end = Inl OverflowError
   \<and> extend_if_grace_applies warning_inf_end 100 60 True = Inl OverflowError"
  by (simp add: warning_inf_end_def get_end_ts_def rawinfo_def dict_get_def
        extend_if_grace_applies_def)


section \<open>The cases of the extender\<close>





section \<open>An end that is no integer\<close>



section \<open>Parsing the extra coordinates\<close>

lemma parse_parts_map_filter:
  "parse_parts parts coords = Inr (coords @ List.map_filter segment_coord parts)"
proof (induction parts arbitrary: coords)
  case Nil
  show ?case by (simp add: map_filter_simps)
next
  case (Cons part parts)
  show ?case
  proof (cases "segment_coord part")
    case None
    then show ?thesis
      using Cons.IH [of coords]
      by (auto simp: map_filter_simps segment_coord_def Let_def
               split: list.splits option.splits if_splits)
  next
    case (Some c)
    then show ?thesis
      using Cons.IH [of "coords @ [c]"]
      by (auto simp: map_filter_simps segment_coord_def Let_def
               split: list.splits option.splits if_splits)
  qed
qed

lemmas float_eval = float_of_string_def strip_def is_space_def split_sign_def to_lower_def
  mantissa_def exponent_def is_digit_def digit_val_def to_float_def float_max_bound_def

text \<open>
  C5. For every input text \<^verbatim>\<open>_parse_extra_coords\<close> returns (it never raises) the pairs of
  the segments that survive, in input order: each segment between semicolons is trimmed,
  and it is skipped if it is empty, if it does not split at commas into exactly two
  parts, or if \<^verbatim>\<open>float\<close> rejects one of the trimmed parts. In particular
  \<^verbatim>\<open>"1,2;bad;3,4,5;,"\<close> gives \<^verbatim>\<open>[(1.0, 2.0)]\<close>.
\<close>

theorem parse_extra_coords_survivors:
  "parse_extra_coords text_in = Inr (surviving_coords text_in)
   \<and> parse_extra_coords ''1,2;bad;3,4,5;,'' = Inr [(Finite 1, Finite 2)]"
proof
  show "parse_extra_coords text_in = Inr (surviving_coords text_in)"
  proof (cases "text_in = []")
    case True
    then show ?thesis
      by (simp add: parse_extra_coords_def surviving_coords_def map_filter_simps
            segment_coord_def strip_def)
  next
    case False
    then show ?thesis
      by (simp add: parse_extra_coords_def surviving_coords_def parse_parts_map_filter)
  qed
  show "parse_extra_coords ''1,2;bad;3,4,5;,'' = Inr [(Finite 1, Finite 2)]"
    by (simp add: parse_extra_coords_def float_eval)
qed

text \<open>The theorem at a text with blanks, an empty segment, a malformed one and an exponent.\<close>

theorem parse_extra_coords_survivors_witness:
  "parse_extra_coords '' 47.5 , 13.25 ;;x,y; 1e2,-.5'' =
     Inr (surviving_coords '' 47.5 , 13.25 ;;x,y; 1e2,-.5'')
   \<and> surviving_coords '' 47.5 , 13.25 ;;x,y; 1e2,-.5'' =
     [(Finite (95 / 2), Finite (53 / 4)), (Finite 100, Finite (- 1 / 2))]"
proof -
  have "surviving_coords '' 47.5 , 13.25 ;;x,y; 1e2,-.5'' =
     [(Finite (95 / 2), Finite (53 / 4)), (Finite 100, Finite (- 1 / 2))]"
    by (simp add: surviving_coords_def segment_coord_def map_filter_simps float_eval)
  with parse_extra_coords_survivors [of "'' 47.5 , 13.25 ;;x,y; 1e2,-.5''"]
  show ?thesis by simp
qed

section \<open>Failures before any request\<close>

lemma py_float_raises:
  "py_float v = Inl x \<Longrightarrow> x = TypeError \<or> x = ValueError \<or> x = OverflowError"
  by (induction v rule: py_float.induct) (auto split: option.splits if_splits)

lemma parse_extra_coords_returns:
  "\<exists>cs. parse_extra_coords t = Inr cs"
  by (simp add: parse_extra_coords_def parse_parts_map_filter)

text \<open>The check for an empty coordinate list is never the one that fails.\<close>

lemma resolve_coords_never_empty:
  "resolve_coords env \<noteq> Inl (UpdateFailed ''no coordinates to query'')"
proof -
  obtain cs where "parse_extra_coords (extra_coords env) = Inr cs"
    using parse_extra_coords_returns by blast
  then show ?thesis
    by (auto simp: resolve_coords_def Let_def dest: py_float_raises
           split: option.splits sum.splits error.splits)
qed




section \<open>No request succeeds\<close>

lemma any_success_fetch_one:
  "any_success (fetch_one repr c r st) = (any_success st \<or> fetch_succeeds r)"
  by (auto simp: fetch_one_def fetch_succeeds_def Let_def split: response.splits sum.splits)

lemma any_success_fetch_loop:
  "any_success (fetch_loop repr rs i cs st) =
     (any_success st \<or> (\<exists>j<length cs. fetch_succeeds (rs (i + j))))"
proof (induction cs arbitrary: i st)
  case Nil
  show ?case by simp
next
  case (Cons c cs)
  have "(\<exists>j<Suc (length cs). fetch_succeeds (rs (i + j))) =
        (fetch_succeeds (rs i) \<or> (\<exists>j<length cs. fetch_succeeds (rs (Suc i + j))))"
    by (auto simp: less_Suc_eq_0_disj)
  then show ?case
    by (simp add: Cons.IH any_success_fetch_one)
qed

lemma any_success_fetch_all:
  "any_success (fetch_all repr rs coords) = (\<exists>j<length coords. fetch_succeeds (rs j))"
  by (simp add: fetch_all_def any_success_fetch_loop)

lemma async_update_data_no_success:
  assumes "resolve_coords env = Inr coords"
    and "\<not> any_success (fetch_all repr (responses env) coords)"
  shows "fst (async_update_data repr env self) =
           (case last_successful_data self of
              Some snapshot \<Rightarrow> Inr snapshot
            | None \<Rightarrow> Inl (UpdateFailed ''Error fetching data: all requests failed''))"
    and "warning_cache (snd (async_update_data repr env self)) = warning_cache self"
    and "last_successful_data (snd (async_update_data repr env self)) = last_successful_data self"
    and "last_non_empty_data (snd (async_update_data repr env self)) = last_non_empty_data self"
  using assms by (simp_all add: async_update_data_def Let_def split: option.splits)

text \<open>
  C7. In a cycle that queries its coordinates and in which no request succeeds: if the
  coordinator holds a last successful result, the cycle returns that result and raises
  nothing, and the result and the cache stay as they were; if it holds none, the cycle
  raises \<^verbatim>\<open>UpdateFailed\<close>.
\<close>

theorem total_failure_cycle:
  assumes "resolve_coords env = Inr coords"
    and "\<forall>j<length coords. \<not> fetch_succeeds (responses env j)"
  shows "(\<forall>snapshot. last_successful_data self = Some snapshot \<longrightarrow>
            fst (async_update_data repr env self) = Inr snapshot
          \<and> last_successful_data (snd (async_update_data repr env self)) = Some snapshot
          \<and> warning_cache (snd (async_update_data repr env self)) = warning_cache self)
       \<and> (last_successful_data self = None \<longrightarrow>
            fst (async_update_data repr env self) =
              Inl (UpdateFailed ''Error fetching data: all requests failed''))"
proof -
  from assms(2) have "\<not> any_success (fetch_all repr (responses env) coords)"
    by (simp add: any_success_fetch_all)
  from async_update_data_no_success [OF assms(1) this, of self] show ?thesis
    by simp
qed





text \<open>A timeout and a 503: with a stored result it is returned, without one the cycle fails.\<close>

theorem total_failure_cycle_witness:
  "fst (async_update_data repr0 env_down coordinator_b) = Inr (cycle_result [warning_b])
   \<and> last_successful_data (snd (async_update_data repr0 env_down coordinator_b)) =
        Some (cycle_result [warning_b])
   \<and> fst (async_update_data repr0 env_down init_coordinator) =
        Inl (UpdateFailed ''Error fetching data: all requests failed'')"
proof -
  have r: "resolve_coords env_down = Inr [(Finite 47, Finite 13), (Finite (97 / 2), Finite 14)]"
    by (simp add: resolve_coords_def env_down_def home_def parse_extra_coords_def float_eval)
  have n: "\<forall>j<length [(Finite 47, Finite 13), (Finite (97 / 2), Finite 14)].
             \<not> fetch_succeeds (responses env_down j)"
    by (simp add: env_down_def fetch_succeeds_def)
  have a: "last_successful_data coordinator_b = Some (cycle_result [warning_b])"
    by (simp add: coordinator_b_def)
  have b: "last_successful_data init_coordinator = None"
    by (simp add: init_coordinator_def)
  from total_failure_cycle [OF r n, of coordinator_b repr0]
       total_failure_cycle [OF r n, of init_coordinator repr0] a b
  show ?thesis by simp
qed

section \<open>One request succeeds and one fails\<close>












section \<open>Cache entries that were not seen\<close>





lemma async_update_data_success:
  assumes "resolve_coords env = Inr coords"
    and "any_success (fetch_all repr (responses env) coords)"
  shows "\<exists>self1. warning_cache self1 = warning_cache self
           \<and> async_update_data repr env self =
               reconcile repr env (combined_warnings (fetch_all repr (responses env) coords)) self1"
proof -
  let ?fs = "fetch_all repr (responses env) coords"
  let ?self1 = "self\<lparr>last_request_utc := Some (utcnow env),
      had_partial_failure := (error_messages ?fs \<noteq> []),
      last_http_status :=
        (case max_http_status ?fs of
           None \<Rightarrow> if any_success ?fs then Some 200 else None
         | Some m \<Rightarrow> Some m),
      last_http_response :=
        (if error_messages ?fs \<noteq> [] then Some (join ''; '' (error_messages ?fs)) else None)\<rparr>"
  have "async_update_data repr env self = reconcile repr env (combined_warnings ?fs) ?self1"
    using assms by (simp add: async_update_data_def Let_def)
  moreover have "warning_cache ?self1 = warning_cache self" by simp
  ultimately show ?thesis by blast
qed







section \<open>The last successful result\<close>

lemma reconcile_stores_result:
  "reconcile repr env combined self = (Inr result, self') \<Longrightarrow>
     last_successful_data self' = Some result"
  by (auto simp: reconcile_def Let_def split: prod.splits option.splits if_splits)

lemma reconcile_keeps_snapshot:
  "last_successful_data self \<noteq> None \<Longrightarrow>
     last_successful_data (snd (reconcile repr env combined self)) \<noteq> None"
  by (auto simp: reconcile_def Let_def split: prod.splits option.splits if_splits)

text \<open>
  The last successful result is the result of the last cycle in which a request
  succeeded, and no cycle clears it.
\<close>

lemma successful_cycle_stores_result:
  assumes "resolve_coords env = Inr coords"
    and "any_success (fetch_all repr (responses env) coords)"
    and "async_update_data repr env self = (Inr result, self')"
  shows "last_successful_data self' = Some result"
proof -
  from async_update_data_success [OF assms(1,2), of self] assms(3)
  obtain self1 where "reconcile repr env
      (combined_warnings (fetch_all repr (responses env) coords)) self1 = (Inr result, self')"
    by auto
  then show ?thesis by (rule reconcile_stores_result)
qed

lemma snapshot_is_kept:
  assumes "last_successful_data self \<noteq> None"
  shows "last_successful_data (snd (async_update_data repr env self)) \<noteq> None"
proof (cases "resolve_coords env")
  case (Inl e)
  with assms show ?thesis
    by (cases e) (simp_all add: async_update_data_def pre_fetch_failure_def)
next
  case (Inr coords)
  show ?thesis
  proof (cases "any_success (fetch_all repr (responses env) coords)")
    case True
    let ?fs = "fetch_all repr (responses env) coords"
    let ?self1 = "self\<lparr>last_request_utc := Some (utcnow env),
      had_partial_failure := (error_messages ?fs \<noteq> []),
      last_http_status :=
        (case max_http_status ?fs of
           None \<Rightarrow> if any_success ?fs then Some 200 else None
         | Some m \<Rightarrow> Some m),
      last_http_response :=
        (if error_messages ?fs \<noteq> [] then Some (join ''; '' (error_messages ?fs)) else None)\<rparr>"
    have "async_update_data repr env self = reconcile repr env (combined_warnings ?fs) ?self1"
      using Inr True by (simp add: async_update_data_def Let_def)
    moreover have "last_successful_data ?self1 \<noteq> None" using assms by simp
    ultimately show ?thesis
      using reconcile_keeps_snapshot [of ?self1 repr env "combined_warnings ?fs"] by simp
  next
    case False
    with Inr assms show ?thesis
      by (auto simp: async_update_data_def Let_def split: option.splits)
  qed
qed

section \<open>The extender never writes to an object it was given\<close>

lemma grows_refl: "grows h h"
  by (simp add: grows_def)

lemma grows_length: "grows h h' \<Longrightarrow> length h \<le> length h'"
proof -
  assume "grows h h'"
  then have "length (take (length h) h') = length h"
    by (simp only: grows_def)
  then show ?thesis by simp
qed

lemma grows_trans: "grows h h1 \<Longrightarrow> grows h1 h2 \<Longrightarrow> grows h h2"
proof -
  assume a: "grows h h1" and b: "grows h1 h2"
  from a have "length h \<le> length h1" by (rule grows_length)
  then have "take (length h) h2 = take (length h) (take (length h1) h2)"
    by (simp add: min_def)
  with a b show ?thesis by (simp add: grows_def)
qed

lemma grows_append: "grows h (h @ xs)"
  by (simp add: grows_def)

lemma grows_lookup: "grows h h' \<Longrightarrow> heap_lookup h a = Some ob \<Longrightarrow> heap_lookup h' a = Some ob"
proof -
  assume g: "grows h h'" and l: "heap_lookup h a = Some ob"
  from l have a: "a < length h" and ob: "h ! a = ob"
    by (auto simp: heap_lookup_def split: if_splits)
  from g have "h' ! a = take (length h) h' ! a" using a by simp
  with g ob grows_length [OF g] a show ?thesis
    by (simp add: heap_lookup_def grows_def)
qed

lemma grows_setitem: "grows h h1 \<Longrightarrow> length h \<le> a \<Longrightarrow> grows h (heap_setitem h1 a k v)"
  by (auto simp: grows_def heap_setitem_def heap_store_def split: option.splits obj.splits)

lemma heap_get_cases:
  "heap_get h a k dflt = (r, h') \<Longrightarrow>
     (r = Inl AttributeError \<and> h' = h)
   \<or> (\<exists>d. heap_lookup h a = Some (ODict d) \<and> h' = h @ [dflt]
          \<and> r = Inr (case map_of d k of None \<Rightarrow> length h | Some v \<Rightarrow> v))"
  by (auto simp: heap_get_def heap_alloc_def split: option.splits obj.splits)

lemma heap_dict_cases:
  "heap_dict h a = (r, h') \<Longrightarrow>
     ((\<exists>e. r = Inl e) \<and> h' = h)
   \<or> (\<exists>d. heap_lookup h a = Some (ODict d) \<and> h' = h @ [ODict d] \<and> r = Inr (length h))"
  by (auto simp: heap_dict_def heap_alloc_def split: option.splits obj.splits)

lemma heap_get_grows: "heap_get h a k dflt = (r, h') \<Longrightarrow> grows h h'"
  by (auto dest!: heap_get_cases simp: grows_refl grows_append)

lemma heap_dict_grows: "heap_dict h a = (r, h') \<Longrightarrow> grows h h'"
  by (auto dest!: heap_dict_cases simp: grows_refl grows_append)

lemma heap_dict_fresh: "heap_dict h a = (Inr c, h') \<Longrightarrow> c = length h"
  by (auto dest!: heap_dict_cases)

lemma heap_rawinfo_grows: "heap_rawinfo h w = (r, h') \<Longrightarrow> grows h h'"
  by (auto simp: heap_rawinfo_def split: prod.splits sum.splits
           dest!: heap_get_grows intro: grows_trans)

lemma heap_get_end_ts_grows: "heap_get_end_ts h w = (r, h') \<Longrightarrow> grows h h'"
  by (auto simp: heap_get_end_ts_def split: prod.splits sum.splits error.splits
           dest!: heap_get_grows heap_rawinfo_grows intro: grows_trans)

lemma heap_copy_with_end_grows:
  assumes "heap_copy_with_end h w n = (r, h')"
  shows "grows h h'"
proof -
  obtain r1 h1 where g1: "heap_get h w ''properties'' (ODict []) = (r1, h1)"
    by (cases "heap_get h w ''properties'' (ODict [])")
  note q1 = heap_get_grows [OF g1]
  show ?thesis
  proof (cases r1)
    case (Inl e)
    with assms g1 q1 show ?thesis by (simp add: heap_copy_with_end_def)
  next
    case (Inr p)
    obtain r2 h2 where g2: "heap_dict h1 p = (r2, h2)" by (cases "heap_dict h1 p")
    note q2 = grows_trans [OF q1 heap_dict_grows [OF g2]]
    show ?thesis
    proof (cases r2)
      case (Inl e)
      with assms g1 g2 Inr q2 show ?thesis by (simp add: heap_copy_with_end_def)
    next
      case props: (Inr props)
      obtain r3 h3 where g3: "heap_get h2 props ''rawinfo'' (ODict []) = (r3, h3)"
        by (cases "heap_get h2 props ''rawinfo'' (ODict [])")
      note q3 = grows_trans [OF q2 heap_get_grows [OF g3]]
      show ?thesis
      proof (cases r3)
        case (Inl e)
        with assms g1 g2 g3 Inr props q3 show ?thesis by (simp add: heap_copy_with_end_def)
      next
        case raw0: (Inr r0)
        obtain r4 h4 where g4: "heap_dict h3 r0 = (r4, h4)" by (cases "heap_dict h3 r0")
        note q4 = grows_trans [OF q3 heap_dict_grows [OF g4]]
        show ?thesis
        proof (cases r4)
          case (Inl e)
          with assms g1 g2 g3 g4 Inr props raw0 q4 show ?thesis
            by (simp add: heap_copy_with_end_def)
        next
          case raw: (Inr raw)
          let ?h5 = "h4 @ [OInt n]"
          let ?h6 = "heap_setitem ?h5 raw ''end'' (length h4)"
          let ?h7 = "heap_setitem ?h6 props ''rawinfo'' raw"
          have pf: "props = length h1" using g2 props by (simp add: heap_dict_fresh)
          have rf: "raw = length h3" using g4 raw by (simp add: heap_dict_fresh)
          have l1: "length h \<le> props" using pf grows_length [OF q1] by simp
          have l3: "length h \<le> raw" using rf grows_length [OF q3] by simp
          have q5: "grows h ?h5" by (rule grows_trans [OF q4 grows_append])
          have q7: "grows h ?h7"
            by (intro grows_setitem q5 l1 l3)
          obtain r8 h8 where g8: "heap_dict ?h7 w = (r8, h8)" by (cases "heap_dict ?h7 w")
          note q8 = grows_trans [OF q7 heap_dict_grows [OF g8]]
          show ?thesis
          proof (cases r8)
            case (Inl e)
            with assms g1 g2 g3 g4 g8 Inr props raw0 raw q8 show ?thesis
              by (simp add: heap_copy_with_end_def heap_alloc_def Let_def)
          next
            case copy: (Inr c)
            have "c = length ?h7" using g8 copy by (simp add: heap_dict_fresh)
            with grows_length [OF q7] have "length h \<le> c" by simp
            from grows_setitem [OF q8 this]
            have "grows h (heap_setitem h8 c ''properties'' props)" .
            with assms g1 g2 g3 g4 g8 Inr props raw0 raw copy show ?thesis
              by (simp add: heap_copy_with_end_def heap_alloc_def Let_def)
          qed
        qed
      qed
    qed
  qed
qed

lemma heap_extend_grows:
  "heap_extend_if_grace_applies h w now g allow = (r, h') \<Longrightarrow> grows h h'"
  by (auto simp: heap_extend_if_grace_applies_def split: prod.splits sum.splits if_splits
           dest!: heap_get_end_ts_grows heap_copy_with_end_grows intro: grows_trans)

lemma no_dangling_ref:
  assumes "no_dangling h" and "heap_lookup h a = Some (ODict d)" and "map_of d k = Some p"
  shows "p < length h"
proof -
  from assms(2) have "ODict d \<in> set h"
    by (metis heap_lookup_def nth_mem option.distinct(1) option.inject)
  with assms(1) have "case ODict d of
        ODict d \<Rightarrow> list_all (\<lambda>kv. snd kv < length h) d
      | OList xs \<Rightarrow> list_all (\<lambda>a. a < length h) xs
      | _ \<Rightarrow> True"
    unfolding no_dangling_def list_all_iff by blast
  then have "list_all (\<lambda>kv. snd kv < length h) d" by simp
  moreover from assms(3) have "(k, p) \<in> set d" by (rule map_of_SomeD)
  ultimately show ?thesis by (auto simp: list_all_iff)
qed

lemma heap_lookup_append_old: "a < length h \<Longrightarrow> heap_lookup (h @ xs) a = heap_lookup h a"
  by (simp add: heap_lookup_def nth_append)

lemma heap_lookup_Some_less: "heap_lookup h a = Some ob \<Longrightarrow> a < length h"
  by (simp add: heap_lookup_def split: if_splits)

lemma heap_get_end_ts_pos_shape:
  assumes "heap_get_end_ts h w = (Inr e, h1)" and "0 < e" and "no_dangling h"
  shows "\<exists>wd p pd r rd v. heap_lookup h w = Some (ODict wd) \<and> map_of wd ''properties'' = Some p
           \<and> heap_lookup h p = Some (ODict pd) \<and> map_of pd ''rawinfo'' = Some r
           \<and> heap_lookup h r = Some (ODict rd) \<and> map_of rd ''end'' = Some v
           \<and> h1 = h @ [ODict [], ODict [], OInt 0]"
proof -
  obtain r1 g1 where a1: "heap_get h w ''properties'' (ODict []) = (r1, g1)"
    by (cases "heap_get h w ''properties'' (ODict [])")
  from assms(1) a1 obtain wd where
    wd: "heap_lookup h w = Some (ODict wd)" and g1: "g1 = h @ [ODict []]"
    and r1: "r1 = Inr (case map_of wd ''properties'' of None \<Rightarrow> length h | Some v \<Rightarrow> v)"
    by (auto simp: heap_get_end_ts_def heap_rawinfo_def dest!: heap_get_cases
             split: prod.splits sum.splits)
  let ?p = "case map_of wd ''properties'' of None \<Rightarrow> length h | Some v \<Rightarrow> v"
  obtain r2 g2 where a2: "heap_get g1 ?p ''rawinfo'' (ODict []) = (r2, g2)"
    by (cases "heap_get g1 ?p ''rawinfo'' (ODict [])")
  from assms(1) a1 r1 a2 obtain pd where
    pd: "heap_lookup g1 ?p = Some (ODict pd)" and g2: "g2 = g1 @ [ODict []]"
    and r2: "r2 = Inr (case map_of pd ''rawinfo'' of None \<Rightarrow> length g1 | Some v \<Rightarrow> v)"
    by (auto simp: heap_get_end_ts_def heap_rawinfo_def dest!: heap_get_cases
             split: prod.splits sum.splits)
  let ?r = "case map_of pd ''rawinfo'' of None \<Rightarrow> length g1 | Some v \<Rightarrow> v"
  obtain r3 g3 where a3: "heap_get g2 ?r ''end'' (OInt 0) = (r3, g3)"
    by (cases "heap_get g2 ?r ''end'' (OInt 0)")
  from assms(1) a1 r1 a2 r2 a3 obtain rd where
    rd: "heap_lookup g2 ?r = Some (ODict rd)" and g3: "g3 = g2 @ [OInt 0]"
    and r3: "r3 = Inr (case map_of rd ''end'' of None \<Rightarrow> length g2 | Some v \<Rightarrow> v)"
    and h1: "h1 = g3"
    by (auto simp: heap_get_end_ts_def heap_rawinfo_def dest!: heap_get_cases
             split: prod.splits sum.splits error.splits)
  let ?v = "case map_of rd ''end'' of None \<Rightarrow> length g2 | Some v \<Rightarrow> v"
  from assms(1) a1 r1 a2 r2 a3 r3 h1
  have e: "(case py_int (case heap_lookup g3 ?v of None \<Rightarrow> PNone | Some ob \<Rightarrow> scalar_of ob) of
              Inr i \<Rightarrow> Inr i | Inl TypeError \<Rightarrow> Inr 0 | Inl ValueError \<Rightarrow> Inr 0 | Inl x \<Rightarrow> Inl x) = Inr e"
    by (auto simp: heap_get_end_ts_def heap_rawinfo_def split: prod.splits sum.splits error.splits)
  have pp: "map_of wd ''properties'' \<noteq> None"
  proof
    assume n: "map_of wd ''properties'' = None"
    then have "pd = []" using pd g1 by (simp add: heap_lookup_def)
    then have "?r = length g1" by simp
    then have "rd = []" using rd g2 by (simp add: heap_lookup_def)
    then have "?v = length g2" by simp
    then have "heap_lookup g3 ?v = Some (OInt 0)" using g3 by (simp add: heap_lookup_def)
    with e assms(2) show False by (simp add: scalar_of_def)
  qed
  then obtain p where p: "map_of wd ''properties'' = Some p" by blast
  from no_dangling_ref [OF assms(3) wd p] have pl: "p < length h" .
  with pd p g1 have pd': "heap_lookup h p = Some (ODict pd)"
    by (simp add: heap_lookup_append_old)
  have rr: "map_of pd ''rawinfo'' \<noteq> None"
  proof
    assume n: "map_of pd ''rawinfo'' = None"
    then have "?r = length g1" by simp
    then have "rd = []" using rd g2 by (simp add: heap_lookup_def)
    then have "?v = length g2" by simp
    then have "heap_lookup g3 ?v = Some (OInt 0)" using g3 by (simp add: heap_lookup_def)
    with e assms(2) show False by (simp add: scalar_of_def)
  qed
  then obtain r where r: "map_of pd ''rawinfo'' = Some r" by blast
  from no_dangling_ref [OF assms(3) pd' r] have rl: "r < length h" .
  with rd r g1 g2 have rd': "heap_lookup h r = Some (ODict rd)"
    by (simp add: heap_lookup_def nth_append split: if_splits)
  have vv: "map_of rd ''end'' \<noteq> None"
  proof
    assume n: "map_of rd ''end'' = None"
    then have "?v = length g2" by simp
    then have "heap_lookup g3 ?v = Some (OInt 0)" using g3 by (simp add: heap_lookup_def)
    with e assms(2) show False by (simp add: scalar_of_def)
  qed
  then obtain v where v: "map_of rd ''end'' = Some v" by blast
  from wd p pd' r rd' v h1 g3 g2 g1 show ?thesis by simp
qed

lemma heap_copy_with_end_shape:
  assumes "heap_lookup h w = Some (ODict wd)" and "map_of wd ''properties'' = Some p"
    and "heap_lookup h p = Some (ODict pd)" and "map_of pd ''rawinfo'' = Some r"
    and "heap_lookup h r = Some (ODict rd)"
  shows "heap_copy_with_end h w n =
           (Inr (length h + 5),
            h @ [ODict [],
                 ODict (AList.update ''rawinfo'' (length h + 3) pd),
                 ODict [],
                 ODict (AList.update ''end'' (length h + 4) rd),
                 OInt n,
                 ODict (AList.update ''properties'' (length h + 1) wd)])"
proof -
  from assms have l: "w < length h" "p < length h" "r < length h"
    and v: "h ! w = ODict wd" "h ! p = ODict pd" "h ! r = ODict rd"
    by (auto simp: heap_lookup_def split: if_splits)
  show ?thesis
    using assms(2,4) l v
    by (simp add: heap_copy_with_end_def heap_get_def heap_dict_def heap_setitem_def heap_alloc_def
          heap_store_def heap_lookup_def nth_append Let_def list_update_append eval_nat_numeral)
qed

lemma heap_extend_copy_branch:
  assumes "no_dangling h" and "heap_get_end_ts h w = (Inr e, h1)"
    and "0 < e" and "e < now" and "now \<le> e + g"
  shows "\<exists>wd p pd r rd.
           heap_lookup h w = Some (ODict wd) \<and> map_of wd ''properties'' = Some p
         \<and> heap_lookup h p = Some (ODict pd) \<and> map_of pd ''rawinfo'' = Some r
         \<and> heap_lookup h r = Some (ODict rd)
         \<and> heap_extend_if_grace_applies h w now g allow =
             (Inr (Some (length h + 8)),
              h @ [ODict [], ODict [], OInt 0, ODict [],
                   ODict (AList.update ''rawinfo'' (length h + 6) pd),
                   ODict [],
                   ODict (AList.update ''end'' (length h + 7) rd),
                   OInt (e + g),
                   ODict (AList.update ''properties'' (length h + 4) wd)])"
proof -
  from heap_get_end_ts_pos_shape [OF assms(2,3,1)] obtain wd p pd r rd v where
    sh: "heap_lookup h w = Some (ODict wd)" "map_of wd ''properties'' = Some p"
        "heap_lookup h p = Some (ODict pd)" "map_of pd ''rawinfo'' = Some r"
        "heap_lookup h r = Some (ODict rd)"
    and h1: "h1 = h @ [ODict [], ODict [], OInt 0]"
    by blast
  have g: "grows h h1" by (simp add: h1 grows_append)
  note sh1 = grows_lookup [OF g sh(1)] sh(2) grows_lookup [OF g sh(3)] sh(4)
    grows_lookup [OF g sh(5)]
  have "heap_extend_if_grace_applies h w now g allow =
          (Inr (Some (length h1 + 5)),
            h1 @ [ODict [],
                 ODict (AList.update ''rawinfo'' (length h1 + 3) pd),
                 ODict [],
                 ODict (AList.update ''end'' (length h1 + 4) rd),
                 OInt (e + g),
                 ODict (AList.update ''properties'' (length h1 + 1) wd)])"
    using assms(2-5)
    by (simp add: heap_extend_if_grace_applies_def heap_copy_with_end_shape [OF sh1])
  then show ?thesis
    using sh by (simp add: h1 eval_nat_numeral)
qed

text \<open>
  C4. For every store, every warning in it and all arguments, the store after
  \<^verbatim>\<open>_extend_if_grace_applies\<close> holds every object of the store before, unchanged: the
  warning, its properties, its raw-info block and everything else. If the store has no
  dangling address and a record is returned, it is either the warning itself, or a new
  object behind the old store: a dictionary with the fields of the warning except that
  \<^verbatim>\<open>properties\<close> is a new dictionary with the fields of the old properties except that
  \<^verbatim>\<open>rawinfo\<close> is a new dictionary with the fields of the old raw-info block except that
  \<^verbatim>\<open>end\<close> is a new integer \<open>e + g\<close>. Every other field holds the address it held in
  the input.
\<close>

theorem extend_never_mutates_input:
  "grows h (snd (heap_extend_if_grace_applies h w now g allow))
   \<and> (no_dangling h \<longrightarrow>
        (\<forall>c. fst (heap_extend_if_grace_applies h w now g allow) = Inr (Some c) \<longrightarrow>
           c = w \<and> snd (heap_extend_if_grace_applies h w now g allow) = snd (heap_get_end_ts h w)
         \<or> (\<exists>wd p pd r rd e.
               fst (heap_get_end_ts h w) = Inr e \<and> 0 < e \<and> e < now \<and> now \<le> e + g
             \<and> heap_lookup h w = Some (ODict wd) \<and> map_of wd ''properties'' = Some p
             \<and> heap_lookup h p = Some (ODict pd) \<and> map_of pd ''rawinfo'' = Some r
             \<and> heap_lookup h r = Some (ODict rd)
             \<and> c = length h + 8
             \<and> snd (heap_extend_if_grace_applies h w now g allow) =
                 h @ [ODict [], ODict [], OInt 0, ODict [],
                      ODict (AList.update ''rawinfo'' (length h + 6) pd),
                      ODict [],
                      ODict (AList.update ''end'' (length h + 7) rd),
                      OInt (e + g),
                      ODict (AList.update ''properties'' (length h + 4) wd)])))"
proof (intro conjI impI allI)
  show "grows h (snd (heap_extend_if_grace_applies h w now g allow))"
    by (rule heap_extend_grows [OF prod.collapse [symmetric]])
next
  fix c
  assume cl: "no_dangling h"
    and res: "fst (heap_extend_if_grace_applies h w now g allow) = Inr (Some c)"
  obtain r1 h1 where ge: "heap_get_end_ts h w = (r1, h1)"
    by (cases "heap_get_end_ts h w")
  from res ge obtain e where e: "r1 = Inr e"
    by (cases r1) (auto simp: heap_extend_if_grace_applies_def)
  show "c = w \<and> snd (heap_extend_if_grace_applies h w now g allow) = snd (heap_get_end_ts h w)
         \<or> (\<exists>wd p pd r rd e.
               fst (heap_get_end_ts h w) = Inr e \<and> 0 < e \<and> e < now \<and> now \<le> e + g
             \<and> heap_lookup h w = Some (ODict wd) \<and> map_of wd ''properties'' = Some p
             \<and> heap_lookup h p = Some (ODict pd) \<and> map_of pd ''rawinfo'' = Some r
             \<and> heap_lookup h r = Some (ODict rd)
             \<and> c = length h + 8
             \<and> snd (heap_extend_if_grace_applies h w now g allow) =
                 h @ [ODict [], ODict [], OInt 0, ODict [],
                      ODict (AList.update ''rawinfo'' (length h + 6) pd),
                      ODict [],
                      ODict (AList.update ''end'' (length h + 7) rd),
                      OInt (e + g),
                      ODict (AList.update ''properties'' (length h + 4) wd)])"
  proof (cases "0 < e \<and> e < now \<and> now \<le> e + g")
    case True
    with heap_extend_copy_branch [OF cl ge [unfolded e], of now g allow] res ge e
    show ?thesis by auto
  next
    case False
    with res ge e show ?thesis
      by (auto simp: heap_extend_if_grace_applies_def split: if_splits)
  qed
qed

text \<open>The warning with end 100 as six objects, read at 120 and at 100 with grace 60.\<close>

theorem extend_never_mutates_input_witness:
  "no_dangling heap_b
   \<and> heap_extend_if_grace_applies heap_b 0 120 60 False =
       (Inr (Some 14),
        heap_b @ [ODict [], ODict [], OInt 0, ODict [],
                  ODict [(''rawinfo'', 12)],
                  ODict [],
                  ODict [(''id'', 3), (''wtype'', 4), (''end'', 13)],
                  OInt 160,
                  ODict [(''properties'', 10)]])
   \<and> grows heap_b (snd (heap_extend_if_grace_applies heap_b 0 120 60 False))
   \<and> fst (heap_extend_if_grace_applies heap_b 0 100 60 False) = Inr (Some 0)
   \<and> grows heap_b (snd (heap_extend_if_grace_applies heap_b 0 100 60 False))"
proof -
  have c: "no_dangling heap_b"
    by (simp add: no_dangling_def heap_b_def)
  have e: "heap_get_end_ts heap_b 0 = (Inr 100, heap_b @ [ODict [], ODict [], OInt 0])"
    by (simp add: heap_get_end_ts_def heap_rawinfo_def heap_get_def heap_lookup_def heap_alloc_def
          heap_b_def scalar_of_def)
  have r: "fst (heap_extend_if_grace_applies heap_b 0 100 60 False) = Inr (Some 0)"
    by (simp add: heap_extend_if_grace_applies_def e)
  have l: "heap_lookup heap_b 0 = Some (ODict [(''properties'', 1)])"
    "heap_lookup heap_b 1 = Some (ODict [(''rawinfo'', 2)])"
    "heap_lookup heap_b 2 = Some (ODict [(''id'', 3), (''wtype'', 4), (''end'', 5)])"
    "length heap_b = 6"
    by (simp_all add: heap_lookup_def heap_b_def)
  have r2: "fst (heap_extend_if_grace_applies heap_b 0 120 60 False) = Inr (Some 14)"
    using heap_extend_copy_branch [OF c e, of 120 60 False] l by auto
  from extend_never_mutates_input [of heap_b 0 120 60 False] c r2 e l
  have a: "snd (heap_extend_if_grace_applies heap_b 0 120 60 False) =
        heap_b @ [ODict [], ODict [], OInt 0, ODict [],
                  ODict [(''rawinfo'', 12)],
                  ODict [],
                  ODict [(''id'', 3), (''wtype'', 4), (''end'', 13)],
                  OInt 160,
                  ODict [(''properties'', 10)]]"
         "grows heap_b (snd (heap_extend_if_grace_applies heap_b 0 120 60 False))"
    by auto
  from extend_never_mutates_input [of heap_b 0 100 60 False]
  have b: "grows heap_b (snd (heap_extend_if_grace_applies heap_b 0 100 60 False))"
    by simp
  from a b c r r2 show ?thesis
    by (simp add: prod_eq_iff)
qed

section \<open>The store and the values agree\<close>

lemma field_rel_pair:
  "field_rel n h (k, x) (k', y) \<longleftrightarrow> k' = k \<and> reify n h x = Some y"
  by (simp add: field_rel_def)

lemma those_map_iff:
  "those (map f xs) = Some ys \<longleftrightarrow> list_all2 (\<lambda>x y. f x = Some y) xs ys"
proof (induction xs arbitrary: ys)
  case Nil
  show ?case by auto
next
  case (Cons x xs)
  show ?case
    by (cases ys) (auto simp: Cons.IH split: option.splits)
qed

lemma reify_dict_iff:
  assumes "heap_lookup h a = Some (ODict d)"
  shows "reify (Suc n) h a = Some v \<longleftrightarrow> (\<exists>vd. v = PDict vd \<and> list_all2 (field_rel n h) d vd)"
proof -
  have "\<And>vd. list_all2 (\<lambda>x y. map_option (Pair (fst x)) (reify n h (snd x)) = Some y) d vd
          = list_all2 (field_rel n h) d vd"
    by (rule arg_cong [where f = "\<lambda>R. list_all2 R d _"])
       (auto simp: field_rel_def fun_eq_iff)
  then show ?thesis
    using assms by (auto simp: those_map_iff)
qed

lemma reify_grows:
  "grows h h' \<Longrightarrow> reify n h a = Some v \<Longrightarrow> reify n h' a = Some v"
proof (induction n arbitrary: a v)
  case 0
  then show ?case by simp
next
  case (Suc n)
  from Suc.prems(2) obtain ob where ob: "heap_lookup h a = Some ob"
    by (auto split: option.splits)
  then have ob': "heap_lookup h' a = Some ob"
    using Suc.prems(1) by (rule grows_lookup [rotated])
  show ?case
  proof (cases ob)
    case (OList xs)
    with Suc.prems(2) ob obtain ys where v: "v = PList ys"
      and r: "list_all2 (\<lambda>x y. reify n h x = Some y) xs ys"
      by (auto simp: those_map_iff)
    from r have "list_all2 (\<lambda>x y. reify n h' x = Some y) xs ys"
      by (rule list_all2_mono) (rule Suc.IH [OF Suc.prems(1)])
    with ob' OList v show ?thesis by (simp add: those_map_iff)
  next
    case (ODict d)
    with Suc.prems(2) ob reify_dict_iff [of h a d n v] obtain vd where v: "v = PDict vd"
      and r: "list_all2 (field_rel n h) d vd"
      by auto
    from r have "list_all2 (field_rel n h') d vd"
      by (rule list_all2_mono) (auto simp: field_rel_def intro: Suc.IH [OF Suc.prems(1)])
    with ob' ODict v reify_dict_iff [of h' a d n v] show ?thesis by auto
  qed (use Suc.prems(2) ob ob' in auto)
qed

lemma field_rel_map_of:
  "list_all2 (field_rel n h) d vd \<Longrightarrow>
     (case map_of d k of
        None \<Rightarrow> map_of vd k = None
      | Some x \<Rightarrow> (\<exists>y. map_of vd k = Some y \<and> reify n h x = Some y))"
  by (induction d vd rule: list_all2_induct) (auto simp: field_rel_pair split: option.splits)

lemma field_rel_update:
  "list_all2 (field_rel n h) d vd \<Longrightarrow> reify n h x = Some y \<Longrightarrow>
     list_all2 (field_rel n h) (AList.update k x d) (AList.update k y vd)"
  by (induction d vd rule: list_all2_induct) (auto simp: field_rel_pair)

lemma reify_Suc: "reify n h a = Some v \<Longrightarrow> \<exists>m ob. n = Suc m \<and> heap_lookup h a = Some ob"
  by (cases n) (auto split: option.splits)

lemma reify_not_dict:
  assumes "reify (Suc m) h a = Some v" and "heap_lookup h a = Some ob" and "\<forall>d. ob \<noteq> ODict d"
  shows "\<forall>vd. v \<noteq> PDict vd"
  using assms by (cases ob) auto

lemma reify_py_int:
  assumes "reify n h x = Some xv"
  shows "py_int (case heap_lookup h x of None \<Rightarrow> PNone | Some ob \<Rightarrow> scalar_of ob) = py_int xv"
proof -
  from reify_Suc [OF assms] obtain m ob where n: "n = Suc m" and ob: "heap_lookup h x = Some ob"
    by blast
  with assms show ?thesis
    by (cases ob) (auto simp: scalar_of_def)
qed

lemma denotes_grows: "grows h h' \<Longrightarrow> denotes h a v \<Longrightarrow> denotes h' a v"
  unfolding denotes_def by (blast intro: reify_grows)

lemma heap_get_sim:
  assumes "denotes h a v" and "denotes (h @ [dflt]) (length h) dv"
  shows "(\<exists>e. heap_get h a k dflt = (Inl e, h) \<and> dict_get v k dv = Inl e)
       \<or> (\<exists>x xv. heap_get h a k dflt = (Inr x, h @ [dflt]) \<and> dict_get v k dv = Inr xv
              \<and> denotes (h @ [dflt]) x xv)"
proof -
  from assms(1) obtain n where "reify n h a = Some v" by (auto simp: denotes_def)
  with reify_Suc obtain m ob where r: "reify (Suc m) h a = Some v" and ob: "heap_lookup h a = Some ob"
    by blast
  show ?thesis
  proof (cases "\<exists>d. ob = ODict d")
    case True
    then obtain d where d: "ob = ODict d" by blast
    with r ob reify_dict_iff [of h a d m v] obtain vd where v: "v = PDict vd"
      and rel: "list_all2 (field_rel m h) d vd"
      by auto
    have hg: "heap_get h a k dflt =
       (Inr (case map_of d k of None \<Rightarrow> length h | Some x \<Rightarrow> x), h @ [dflt])"
      using ob d by (simp add: heap_get_def heap_alloc_def)
    have dg: "dict_get v k dv = Inr (case map_of vd k of None \<Rightarrow> dv | Some y \<Rightarrow> y)"
      by (simp add: v dict_get_def)
    show ?thesis
    proof (cases "map_of d k")
      case None
      with field_rel_map_of [OF rel, of k] have "map_of vd k = None" by simp
      with None hg dg assms(2) show ?thesis by simp
    next
      case (Some x)
      with field_rel_map_of [OF rel, of k] obtain y where y: "map_of vd k = Some y"
        and "reify m h x = Some y" by auto
      then have "denotes h x y" by (auto simp: denotes_def)
      then have "denotes (h @ [dflt]) x y" by (rule denotes_grows [OF grows_append])
      with Some y hg dg show ?thesis by simp
    qed
  next
    case False
    with reify_not_dict [OF r ob] have nd: "\<forall>vd. v \<noteq> PDict vd" by blast
    from False ob have "heap_get h a k dflt = (Inl AttributeError, h)"
      by (cases ob) (auto simp: heap_get_def)
    moreover from nd have "dict_get v k dv = Inl AttributeError"
      by (cases v) (auto simp: dict_get_def)
    ultimately show ?thesis by simp
  qed
qed

lemma denotes_empty_dict: "denotes (h @ [ODict []]) (length h) (PDict [])"
  unfolding denotes_def by (rule exI [of _ 1]) (simp add: heap_lookup_def)

lemma denotes_int: "denotes (h @ [OInt i]) (length h) (PInt i)"
  unfolding denotes_def by (rule exI [of _ 1]) (simp add: heap_lookup_def)

lemma heap_rawinfo_sim:
  assumes "denotes h w v"
  shows "(\<exists>e h1. heap_rawinfo h w = (Inl e, h1) \<and> rawinfo v = Inl e)
       \<or> (\<exists>x xv h1. heap_rawinfo h w = (Inr x, h1) \<and> rawinfo v = Inr xv \<and> denotes h1 x xv)"
proof -
  from heap_get_sim [OF assms denotes_empty_dict, of "''properties''"]
  show ?thesis
  proof (elim disjE exE conjE)
    fix e
    assume "heap_get h w ''properties'' (ODict []) = (Inl e, h)"
      and "dict_get v ''properties'' (PDict []) = Inl e"
    then show ?thesis by (simp add: heap_rawinfo_def rawinfo_def)
  next
    fix p pv
    assume g: "heap_get h w ''properties'' (ODict []) = (Inr p, h @ [ODict []])"
      and d: "dict_get v ''properties'' (PDict []) = Inr pv"
      and den: "denotes (h @ [ODict []]) p pv"
    from heap_get_sim [OF den denotes_empty_dict, of "''rawinfo''"] g d
    show ?thesis
      by (auto simp: heap_rawinfo_def rawinfo_def)
  qed
qed

lemma heap_get_end_ts_sim:
  assumes "denotes h w v"
  shows "fst (heap_get_end_ts h w) = get_end_ts v"
proof -
  from heap_rawinfo_sim [OF assms] show ?thesis
  proof (elim disjE exE conjE)
    fix e h1
    assume "heap_rawinfo h w = (Inl e, h1)" and "rawinfo v = Inl e"
    then show ?thesis by (simp add: heap_get_end_ts_def get_end_ts_def)
  next
    fix r rv h1
    assume g: "heap_rawinfo h w = (Inr r, h1)" and d: "rawinfo v = Inr rv"
      and den: "denotes h1 r rv"
    from heap_get_sim [OF den denotes_int, of "''end''" 0]
    show ?thesis
    proof (elim disjE exE conjE)
      fix e
      assume "heap_get h1 r ''end'' (OInt 0) = (Inl e, h1)"
        and "dict_get rv ''end'' (PInt 0) = Inl e"
      with g d show ?thesis by (simp add: heap_get_end_ts_def get_end_ts_def)
    next
      fix x xv
      assume g2: "heap_get h1 r ''end'' (OInt 0) = (Inr x, h1 @ [OInt 0])"
        and d2: "dict_get rv ''end'' (PInt 0) = Inr xv"
        and den2: "denotes (h1 @ [OInt 0]) x xv"
      from den2 obtain n where "reify n (h1 @ [OInt 0]) x = Some xv"
        by (auto simp: denotes_def)
      from reify_py_int [OF this] g g2 d d2 show ?thesis
        by (auto simp: heap_get_end_ts_def get_end_ts_def split: sum.splits error.splits)
    qed
  qed
qed

lemma field_rel_grows:
  "grows h h' \<Longrightarrow> list_all2 (field_rel n h) d vd \<Longrightarrow> list_all2 (field_rel n h') d vd"
  by (erule list_all2_mono) (auto simp: field_rel_def intro: reify_grows)

lemma reify_dict_field:
  assumes "reify n h a = Some v" and "heap_lookup h a = Some (ODict d)" and "map_of d k = Some x"
  shows "\<exists>m vd y. n = Suc m \<and> v = PDict vd \<and> list_all2 (field_rel m h) d vd
           \<and> map_of vd k = Some y \<and> reify m h x = Some y"
proof -
  from reify_Suc [OF assms(1)] obtain m where n: "n = Suc m" by blast
  with assms(1,2) reify_dict_iff [of h a d m v] obtain vd where
    v: "v = PDict vd" and rel: "list_all2 (field_rel m h) d vd" by auto
  from field_rel_map_of [OF rel, of k] assms(3) obtain y where
    "map_of vd k = Some y" "reify m h x = Some y" by auto
  with n v rel show ?thesis by blast
qed

lemma copy_denotes:
  assumes r: "reify n h w = Some v"
    and sh: "heap_lookup h w = Some (ODict wd)" "map_of wd ''properties'' = Some p"
        "heap_lookup h p = Some (ODict pd)" "map_of pd ''rawinfo'' = Some r0"
        "heap_lookup h r0 = Some (ODict rd)" "map_of rd ''end'' = Some x"
    and h': "h' = h @ [ODict [], ODict [], OInt 0, ODict [],
                   ODict (AList.update ''rawinfo'' (length h + 6) pd),
                   ODict [],
                   ODict (AList.update ''end'' (length h + 7) rd),
                   OInt k,
                   ODict (AList.update ''properties'' (length h + 4) wd)]"
  shows "\<exists>vwd vpd vrd. v = PDict vwd \<and> map_of vwd ''properties'' = Some (PDict vpd)
           \<and> map_of vpd ''rawinfo'' = Some (PDict vrd)
           \<and> reify n h' (length h + 8) =
               Some (PDict (AList.update ''properties''
                 (PDict (AList.update ''rawinfo''
                   (PDict (AList.update ''end'' (PInt k) vrd)) vpd)) vwd))"
proof -
  from reify_dict_field [OF r sh(1,2)] obtain n1 vwd pv where
    n: "n = Suc n1" and v: "v = PDict vwd" and rel1: "list_all2 (field_rel n1 h) wd vwd"
    and mp: "map_of vwd ''properties'' = Some pv" and rp: "reify n1 h p = Some pv"
    by blast
  from reify_dict_field [OF rp sh(3,4)] obtain n2 vpd rv where
    n1: "n1 = Suc n2" and pv: "pv = PDict vpd" and rel2: "list_all2 (field_rel n2 h) pd vpd"
    and mr: "map_of vpd ''rawinfo'' = Some rv" and rr: "reify n2 h r0 = Some rv"
    by blast
  from reify_dict_field [OF rr sh(5,6)] obtain n3 vrd xv where
    n2: "n2 = Suc n3" and rv: "rv = PDict vrd" and rel3: "list_all2 (field_rel n3 h) rd vrd"
    and rx: "reify n3 h x = Some xv"
    by blast
  from reify_Suc [OF rx] obtain n4 where n3: "n3 = Suc n4" by blast
  have g: "grows h h'" by (simp add: h' grows_append)
  have l7: "heap_lookup h' (length h + 7) = Some (OInt k)"
    and l6: "heap_lookup h' (length h + 6) = Some (ODict (AList.update ''end'' (length h + 7) rd))"
    and l4: "heap_lookup h' (length h + 4) = Some (ODict (AList.update ''rawinfo'' (length h + 6) pd))"
    and l8: "heap_lookup h' (length h + 8) = Some (ODict (AList.update ''properties'' (length h + 4) wd))"
    by (simp_all add: h' heap_lookup_def nth_append)
  have i7: "reify n3 h' (length h + 7) = Some (PInt k)"
    by (simp add: n3 l7)
  have "list_all2 (field_rel n3 h') (AList.update ''end'' (length h + 7) rd)
          (AList.update ''end'' (PInt k) vrd)"
    by (rule field_rel_update [OF field_rel_grows [OF g rel3] i7])
  with reify_dict_iff [OF l6, of n3]
  have i6: "reify n2 h' (length h + 6) = Some (PDict (AList.update ''end'' (PInt k) vrd))"
    by (simp add: n2)
  have "list_all2 (field_rel n2 h') (AList.update ''rawinfo'' (length h + 6) pd)
          (AList.update ''rawinfo'' (PDict (AList.update ''end'' (PInt k) vrd)) vpd)"
    by (rule field_rel_update [OF field_rel_grows [OF g rel2] i6])
  with reify_dict_iff [OF l4, of n2]
  have i4: "reify n1 h' (length h + 4) =
      Some (PDict (AList.update ''rawinfo'' (PDict (AList.update ''end'' (PInt k) vrd)) vpd))"
    by (simp add: n1)
  have "list_all2 (field_rel n1 h') (AList.update ''properties'' (length h + 4) wd)
          (AList.update ''properties''
             (PDict (AList.update ''rawinfo'' (PDict (AList.update ''end'' (PInt k) vrd)) vpd)) vwd)"
    by (rule field_rel_update [OF field_rel_grows [OF g rel1] i4])
  with reify_dict_iff [OF l8, of n1]
  have "reify n h' (length h + 8) =
      Some (PDict (AList.update ''properties''
             (PDict (AList.update ''rawinfo'' (PDict (AList.update ''end'' (PInt k) vrd)) vpd)) vwd))"
    by (simp add: n)
  with v mp pv mr rv show ?thesis by blast
qed

text \<open>
  On a store without dangling addresses in which the address \<open>w\<close> stands for the value
  \<open>v\<close>, the extender on the store and the extender on values raise the same exception,
  or both return nothing, or the address returned stands for the value returned.
\<close>

lemma heap_extend_refines:
  assumes "no_dangling h" and "denotes h w v"
  shows "case heap_extend_if_grace_applies h w now g allow of
           (Inl e, h') \<Rightarrow> extend_if_grace_applies v now g allow = Inl e
         | (Inr None, h') \<Rightarrow> extend_if_grace_applies v now g allow = Inr None
         | (Inr (Some c), h') \<Rightarrow>
             (\<exists>v'. extend_if_grace_applies v now g allow = Inr (Some v') \<and> denotes h' c v')"
proof -
  obtain r1 h1 where ge: "heap_get_end_ts h w = (r1, h1)"
    by (cases "heap_get_end_ts h w")
  with heap_get_end_ts_sim [OF assms(2)] have gv: "get_end_ts v = r1" by simp
  have g1: "grows h h1" by (rule heap_get_end_ts_grows [OF ge])
  show ?thesis
  proof (cases r1)
    case (Inl e)
    with ge gv show ?thesis
      by (simp add: heap_extend_if_grace_applies_def extend_if_grace_applies_def)
  next
    case (Inr e)
    show ?thesis
    proof (cases "0 < e \<and> e < now \<and> now \<le> e + g")
      case False
      with ge gv Inr denotes_grows [OF g1 assms(2)] show ?thesis
        by (auto simp: heap_extend_if_grace_applies_def extend_if_grace_applies_def)
    next
      case True
      then have t: "0 < e" "e < now" "now \<le> e + g" by simp_all
      from heap_get_end_ts_pos_shape [OF ge [unfolded Inr] t(1) assms(1)]
      obtain wd p pd r0 rd x where
        sh: "heap_lookup h w = Some (ODict wd)" "map_of wd ''properties'' = Some p"
            "heap_lookup h p = Some (ODict pd)" "map_of pd ''rawinfo'' = Some r0"
            "heap_lookup h r0 = Some (ODict rd)" "map_of rd ''end'' = Some x"
        by blast
      from heap_extend_copy_branch [OF assms(1) ge [unfolded Inr] t, of allow] sh
      have he: "heap_extend_if_grace_applies h w now g allow =
             (Inr (Some (length h + 8)),
              h @ [ODict [], ODict [], OInt 0, ODict [],
                   ODict (AList.update ''rawinfo'' (length h + 6) pd),
                   ODict [],
                   ODict (AList.update ''end'' (length h + 7) rd),
                   OInt (e + g),
                   ODict (AList.update ''properties'' (length h + 4) wd)])"
        by auto
      from assms(2) obtain n where n: "reify n h w = Some v" by (auto simp: denotes_def)
      from copy_denotes [OF n sh refl, of "e + g"] obtain vwd vpd vrd where
        v: "v = PDict vwd" "map_of vwd ''properties'' = Some (PDict vpd)"
           "map_of vpd ''rawinfo'' = Some (PDict vrd)"
        and c: "reify n (h @ [ODict [], ODict [], OInt 0, ODict [],
                   ODict (AList.update ''rawinfo'' (length h + 6) pd),
                   ODict [],
                   ODict (AList.update ''end'' (length h + 7) rd),
                   OInt (e + g),
                   ODict (AList.update ''properties'' (length h + 4) wd)]) (length h + 8) =
               Some (PDict (AList.update ''properties''
                 (PDict (AList.update ''rawinfo''
                   (PDict (AList.update ''end'' (PInt (e + g)) vrd)) vpd)) vwd))"
        by blast
      have "extend_if_grace_applies v now g allow =
              Inr (Some (PDict (AList.update ''properties''
                 (PDict (AList.update ''rawinfo''
                   (PDict (AList.update ''end'' (PInt (e + g)) vrd)) vpd)) vwd)))"
        using gv Inr t copy_with_end_shape [OF v, of "e + g"]
        by (simp add: extend_if_grace_applies_def)
      with he c show ?thesis
        by (auto simp: denotes_def)
    qed
  qed
qed

end
